theory Spec2Isabelle
  imports Main "HOL-Library.Multiset" "HOL-Library.Sublist"
begin

section \<open>NaextroNotes: the gallery script\<close>

text \<open>
  A shallow embedding of \<^verbatim>\<open>script.js\<close>: the date parser, the flattener, the
  filter engine, the grouped renderer and the statistics.

  Conventions. A JavaScript string is a \<^typ>\<open>string\<close>; one \<^typ>\<open>char\<close> stands for
  one UTF-16 code unit (the model covers the code units below 256), so that
  \<^term>\<open>length\<close> is the \<^verbatim>\<open>.length\<close> of the script. The collection has the shape
  the data file gives it: every \<^verbatim>\<open>date\<close> and \<^verbatim>\<open>subject\<close> is a string, every
  \<^verbatim>\<open>subjects\<close> and \<^verbatim>\<open>images\<close> is an array.
\<close>

subsection \<open>Strings\<close>

text \<open>\<^verbatim>\<open>s.split(sep)\<close> for a separator of one code unit: the pieces between the
  occurrences of the separator; always at least one piece.\<close>

fun split :: "char \<Rightarrow> string \<Rightarrow> string list" where
  "split sep [] = [[]]"
| "split sep (c # cs) =
     (if c = sep then [] # split sep cs
      else (case split sep cs of
              [] \<Rightarrow> [[c]]
            | p # ps \<Rightarrow> (c # p) # ps))"

text \<open>\<^verbatim>\<open>s.padStart(n, '0')\<close>: a string that is already \<open>n\<close> long or longer is
  returned as it is.\<close>

definition padStart :: "nat \<Rightarrow> char \<Rightarrow> string \<Rightarrow> string" where
  "padStart n c s = (if n \<le> length s then s else replicate (n - length s) c @ s)"

subsection \<open>Data model\<close>

record subject_group =
  subject :: string
  images :: "string list"

record date_group =
  date :: string
  subjects :: "subject_group list"

type_synonym note_collection = "date_group list"

record flat_record =
  fr_date :: string
  fr_subject :: string
  fr_path :: string


subsection \<open>The host's \<^verbatim>\<open>Date\<close>\<close>

text \<open>
  The script reads a timestamp with \<^verbatim>\<open>new Date(iso + 'T00:00:00').getTime()\<close>. The
  result is a Number that is an integer or \<^verbatim>\<open>NaN\<close>: \<^typ>\<open>int option\<close>, with
  \<^term>\<open>None\<close> for \<^verbatim>\<open>NaN\<close>. A string in the date-time format of ECMAScript,
  \<^verbatim>\<open>YYYY-MM-DDTHH:mm:ss\<close> without an offset, is read as local time; what any other string
  gives is left to the implementation. Two things therefore belong to the host and are
  parameters of the model: the map \<open>UTC\<close> from a local time value to the time value (the
  time zone), and \<open>legacy_parse\<close>, the result for a string outside the format. A date
  whose day does not exist in its month (\<^verbatim>\<open>2024-02-31\<close>) is read differently by different
  engines and is given to \<open>legacy_parse\<close> as well.
\<close>

record host =
  UTC :: "int \<Rightarrow> int"
  legacy_parse :: "string \<Rightarrow> int option"

definition is_digit :: "char \<Rightarrow> bool" where
  "is_digit c = (48 \<le> (of_char c :: nat) \<and> (of_char c :: nat) \<le> 57)"

definition digit_val :: "char \<Rightarrow> nat" where
  "digit_val c = (of_char c :: nat) - 48"

definition num_of_digits :: "string \<Rightarrow> nat" where
  "num_of_digits s = foldl (\<lambda>n c. 10 * n + digit_val c) 0 s"

definition msPerDay :: int where
  "msPerDay = 86400000"

definition DayFromYear :: "int \<Rightarrow> int" where
  "DayFromYear y =
     365 * (y - 1970) + (y - 1969) div 4 - (y - 1901) div 100 + (y - 1601) div 400"

definition InLeapYear :: "int \<Rightarrow> bool" where
  "InLeapYear y = (y mod 4 = 0 \<and> (y mod 100 \<noteq> 0 \<or> y mod 400 = 0))"

text \<open>Days of the year before the month with index \<open>mn\<close> (January is 0).\<close>

definition days_before_month :: "bool \<Rightarrow> nat \<Rightarrow> int" where
  "days_before_month leap mn =
     [0, 31, 59, 90, 120, 151, 181, 212, 243, 273, 304, 334] ! mn
       + (if leap \<and> 2 \<le> mn then 1 else 0)"

text \<open>Days in the month with number \<open>m\<close> (January is 1).\<close>

definition DaysInMonth :: "int \<Rightarrow> nat \<Rightarrow> nat" where
  "DaysInMonth y m =
     (if m = 2 then (if InLeapYear y then 29 else 28)
      else if m = 4 \<or> m = 6 \<or> m = 9 \<or> m = 11 then 30
      else 31)"

text \<open>\<open>MakeDay\<close> of ECMAScript for a month index in 0..11: the day number of a date,
  counted from 1 January 1970.\<close>

definition MakeDay :: "int \<Rightarrow> nat \<Rightarrow> int \<Rightarrow> int" where
  "MakeDay year mn dt = DayFromYear year + days_before_month (InLeapYear year) mn + dt - 1"

definition TimeClip :: "int \<Rightarrow> int option" where
  "TimeClip t = (if \<bar>t\<bar> > 8640000000000000 then None else Some t)"

text \<open>The strings of the shape \<^verbatim>\<open>YYYY-MM-DDT00:00:00\<close>, all of \<open>Y\<close>, \<open>M\<close>, \<open>D\<close>
  digits: year, month and day as numbers.\<close>

fun iso_local_midnight :: "string \<Rightarrow> (nat \<times> nat \<times> nat) option" where
  "iso_local_midnight (y1 # y2 # y3 # y4 # s1 # m1 # m2 # s2 # d1 # d2 # rest) =
     (if is_digit y1 \<and> is_digit y2 \<and> is_digit y3 \<and> is_digit y4 \<and> s1 = CHR ''-''
         \<and> is_digit m1 \<and> is_digit m2 \<and> s2 = CHR ''-''
         \<and> is_digit d1 \<and> is_digit d2 \<and> rest = ''T00:00:00''
      then Some (num_of_digits [y1, y2, y3, y4], num_of_digits [m1, m2], num_of_digits [d1, d2])
      else None)"
| "iso_local_midnight _ = None"

definition Date_getTime :: "host \<Rightarrow> string \<Rightarrow> int option" where
  "Date_getTime h s =
     (case iso_local_midnight s of
        None \<Rightarrow> legacy_parse h s
      | Some (y, m, d) \<Rightarrow>
          if 1 \<le> m \<and> m \<le> 12 \<and> 1 \<le> d \<and> d \<le> DaysInMonth (int y) m
          then TimeClip (UTC h (MakeDay (int y) (m - 1) (int d) * msPerDay))
          else legacy_parse h s)"

text \<open>The calendar: the date after a date, and the day number of a date (month and day
  counted from 1).\<close>

definition next_date :: "int \<times> nat \<times> nat \<Rightarrow> int \<times> nat \<times> nat" where
  "next_date ymd =
     (case ymd of (y, m, d) \<Rightarrow>
        if d < DaysInMonth y m then (y, m, d + 1)
        else if m < 12 then (y, m + 1, 1)
        else (y + 1, 1, 1))"

definition day_number :: "int \<times> nat \<times> nat \<Rightarrow> int" where
  "day_number ymd = (case ymd of (y, m, d) \<Rightarrow> MakeDay y (m - 1) (int d))"

subsection \<open>Date parser\<close>

record parsed_date =
  iso :: string
  ts :: "int option"
  raw :: string

text \<open>\<^verbatim>\<open>parseDDMMYYYY\<close>; \<^term>\<open>None\<close> is the \<^verbatim>\<open>null\<close> it returns.\<close>

definition parseDDMMYYYY :: "host \<Rightarrow> string \<Rightarrow> parsed_date option" where
  "parseDDMMYYYY h ddmmyyyy =
     (let parts = split CHR ''-'' ddmmyyyy in
      if length parts \<noteq> 3 then None
      else
        (let dd = padStart 2 CHR ''0'' (parts ! 0);
             mm = padStart 2 CHR ''0'' (parts ! 1);
             yyyy = parts ! 2;
             iso' = yyyy @ ''-'' @ mm @ ''-'' @ dd
         in Some \<lparr>iso = iso', ts = Date_getTime h (iso' @ ''T00:00:00''), raw = ddmmyyyy\<rparr>))"

text \<open>The inputs the specification calls valid: day and month of one or two digits,
  a year of four digits, and a day that exists in that month of that year.\<close>

definition digits :: "string \<Rightarrow> bool" where
  "digits s = list_all is_digit s"

definition valid_ddmmyyyy :: "string \<Rightarrow> string \<Rightarrow> string \<Rightarrow> bool" where
  "valid_ddmmyyyy dd mm yyyy =
     (digits dd \<and> (length dd = 1 \<or> length dd = 2)
      \<and> digits mm \<and> (length mm = 1 \<or> length mm = 2)
      \<and> digits yyyy \<and> length yyyy = 4
      \<and> 1 \<le> num_of_digits mm \<and> num_of_digits mm \<le> 12
      \<and> 1 \<le> num_of_digits dd
      \<and> num_of_digits dd \<le> DaysInMonth (int (num_of_digits yyyy)) (num_of_digits mm))"

definition zero_pad2 :: "string \<Rightarrow> string" where
  "zero_pad2 s = (if length s = 1 then CHR ''0'' # s else s)"

text \<open>Local midnight of a calendar date, as a local time value.\<close>

definition local_midnight :: "nat \<Rightarrow> nat \<Rightarrow> nat \<Rightarrow> int" where
  "local_midnight y m d = MakeDay (int y) (m - 1) (int d) * msPerDay"

definition utc_host :: host where
  "utc_host = \<lparr>UTC = (\<lambda>t. t), legacy_parse = (\<lambda>s. None)\<rparr>"

subsection \<open>Flattener\<close>

text \<open>\<^verbatim>\<open>getFlattenedImages\<close>: three nested \<^verbatim>\<open>forEach\<close> loops that push onto one
  array; each loop is a left fold that carries the array.\<close>

definition getFlattenedImages :: "note_collection \<Rightarrow> flat_record list" where
  "getFlattenedImages data =
     foldl (\<lambda>arr d.
        foldl (\<lambda>arr s.
           foldl (\<lambda>arr p. arr @ [\<lparr>fr_date = date d, fr_subject = subject s, fr_path = p\<rparr>])
                 arr (images s))
              arr (subjects d))
           [] data"

text \<open>What the specification says the flattener produces: the records of every date,
  in order; within a date those of every subject, in order; within a subject one record
  for every image, in order.\<close>

definition flat_of_subject :: "date_group \<Rightarrow> subject_group \<Rightarrow> flat_record list" where
  "flat_of_subject d s =
     map (\<lambda>p. \<lparr>fr_date = date d, fr_subject = subject s, fr_path = p\<rparr>) (images s)"

definition flat_of_date :: "date_group \<Rightarrow> flat_record list" where
  "flat_of_date d = concat (map (flat_of_subject d) (subjects d))"

definition flatten_spec :: "note_collection \<Rightarrow> flat_record list" where
  "flatten_spec data = concat (map flat_of_date data)"

definition count_images :: "note_collection \<Rightarrow> nat" where
  "count_images data =
     sum_list (map (\<lambda>d. sum_list (map (\<lambda>s. length (images s)) (subjects d))) data)"

subsection \<open>Filter engine\<close>

text \<open>The module-level \<^verbatim>\<open>filterState\<close> and the values of the four \<^verbatim>\<open>select\<close>
  controls that the getters read.\<close>

record ui_state =
  filterState_subject :: bool
  filterState_date :: bool
  subject_filter :: string
  day_filter :: string
  month_filter :: string
  year_filter :: string

record date_filters =
  day :: string
  month :: string
  year :: string

definition getSelectedSubject :: "ui_state \<Rightarrow> string option" where
  "getSelectedSubject u =
     (if \<not> filterState_subject u then None
      else if subject_filter u \<noteq> [] then Some (subject_filter u) else None)"

definition getSelectedDateFilters :: "ui_state \<Rightarrow> date_filters option" where
  "getSelectedDateFilters u =
     (if \<not> filterState_date u then None
      else if day_filter u = [] \<and> month_filter u = [] \<and> year_filter u = [] then None
      else Some \<lparr>day = day_filter u, month = month_filter u, year = year_filter u\<rparr>)"

text \<open>An element of an array pattern \<^verbatim>\<open>[day, month, year] = parts\<close>: the element at
  that index, \<^verbatim>\<open>undefined\<close> (here \<^term>\<open>None\<close>) beyond the end.\<close>

definition element :: "'a list \<Rightarrow> nat \<Rightarrow> 'a option" where
  "element xs i = (if i < length xs then Some (xs ! i) else None)"

text \<open>The callback of the date \<^verbatim>\<open>filter\<close> (lines 279 to 287); it reads of the
  group its \<^verbatim>\<open>date\<close> only.\<close>

definition matches_date_string :: "date_filters \<Rightarrow> string \<Rightarrow> bool" where
  "matches_date_string dateFilters d =
     (let parts = split CHR ''-'' d;
          matchesDay = (day dateFilters = [] \<or> element parts 0 = Some (day dateFilters));
          matchesMonth = (month dateFilters = [] \<or> element parts 1 = Some (month dateFilters));
          matchesYear = (year dateFilters = [] \<or> element parts 2 = Some (year dateFilters))
      in matchesDay \<and> matchesMonth \<and> matchesYear)"

definition date_matches :: "date_filters \<Rightarrow> date_group \<Rightarrow> bool" where
  "date_matches dateFilters dItem = matches_date_string dateFilters (date dItem)"

definition date_filtering :: "date_filters \<Rightarrow> note_collection \<Rightarrow> note_collection" where
  "date_filtering dateFilters filteredData = filter (date_matches dateFilters) filteredData"

text \<open>The subject stage (lines 292 to 295): a \<^verbatim>\<open>map\<close> that copies each group with its
  subjects filtered, then a \<^verbatim>\<open>filter\<close> on the groups that kept a subject.\<close>

definition subject_filtering :: "string \<Rightarrow> note_collection \<Rightarrow> note_collection" where
  "subject_filtering subj filteredData =
     filter (\<lambda>dItem. 0 < length (subjects dItem))
       (map (\<lambda>dItem. dItem\<lparr>subjects := filter (\<lambda>s. subject s = subj) (subjects dItem)\<rparr>)
            filteredData)"

text \<open>The value of \<^verbatim>\<open>filteredData\<close> that \<^verbatim>\<open>applyCombinedFilter\<close> hands to the
  renderer.\<close>

definition filteredData :: "ui_state \<Rightarrow> note_collection \<Rightarrow> note_collection" where
  "filteredData u galleryData =
     (let subj = getSelectedSubject u;
          dateFilters = getSelectedDateFilters u;
          fd0 = galleryData;
          fd1 = (case dateFilters of
                   Some df \<Rightarrow> if filterState_date u then date_filtering df fd0 else fd0
                 | None \<Rightarrow> fd0);
          fd2 = (case subj of
                   Some sb \<Rightarrow> if filterState_subject u then subject_filtering sb fd1 else fd1
                 | None \<Rightarrow> fd1)
      in fd2)"

text \<open>The scenario of the specification.\<close>

definition scenario :: note_collection where
  "scenario =
     [\<lparr>date = ''10-10-2025'', subjects = [\<lparr>subject = ''Chemistry'', images = [''a.jpg'']\<rparr>]\<rparr>,
      \<lparr>date = ''11-10-2025'',
       subjects = [\<lparr>subject = ''Physics'', images = [''b.jpg'', ''c.jpg'']\<rparr>]\<rparr>]"

definition date_active :: "ui_state \<Rightarrow> bool" where
  "date_active u =
     (filterState_date u \<and> (day_filter u \<noteq> [] \<or> month_filter u \<noteq> [] \<or> year_filter u \<noteq> []))"

definition field_matches :: "string \<Rightarrow> string list \<Rightarrow> nat \<Rightarrow> bool" where
  "field_matches sel parts i = (sel \<noteq> [] \<longrightarrow> i < length parts \<and> parts ! i = sel)"

definition date_matches_spec :: "ui_state \<Rightarrow> date_group \<Rightarrow> bool" where
  "date_matches_spec u d =
     (field_matches (day_filter u) (split CHR ''-'' (date d)) 0
      \<and> field_matches (month_filter u) (split CHR ''-'' (date d)) 1
      \<and> field_matches (year_filter u) (split CHR ''-'' (date d)) 2)"

definition subject_active :: "ui_state \<Rightarrow> bool" where
  "subject_active u = (filterState_subject u \<and> subject_filter u \<noteq> [])"

definition keep_subject :: "string \<Rightarrow> date_group \<Rightarrow> date_group" where
  "keep_subject sb d = d\<lparr>subjects := filter (\<lambda>s. subject s = sb) (subjects d)\<rparr>"

definition has_subject :: "string \<Rightarrow> date_group \<Rightarrow> bool" where
  "has_subject sb d = list_ex (\<lambda>s. subject s = sb) (subjects d)"

text \<open>The stages in the other order, and filter states for the examples.\<close>

definition filteredData_swapped :: "ui_state \<Rightarrow> note_collection \<Rightarrow> note_collection" where
  "filteredData_swapped u galleryData =
     (let subj = getSelectedSubject u;
          dateFilters = getSelectedDateFilters u;
          fd0 = galleryData;
          fd1 = (case subj of
                   Some sb \<Rightarrow> if filterState_subject u then subject_filtering sb fd0 else fd0
                 | None \<Rightarrow> fd0);
          fd2 = (case dateFilters of
                   Some df \<Rightarrow> if filterState_date u then date_filtering df fd1 else fd1
                 | None \<Rightarrow> fd1)
      in fd2)"

definition month_october :: ui_state where
  "month_october = \<lparr>filterState_subject = False, filterState_date = True, subject_filter = [],
     day_filter = [], month_filter = ''10'', year_filter = []\<rparr>"

definition day_1 :: ui_state where
  "day_1 = \<lparr>filterState_subject = False, filterState_date = True, subject_filter = [],
     day_filter = ''1'', month_filter = [], year_filter = []\<rparr>"

definition date_on_nothing_selected :: ui_state where
  "date_on_nothing_selected = \<lparr>filterState_subject = True, filterState_date = True,
     subject_filter = ''Physics'', day_filter = [], month_filter = [], year_filter = []\<rparr>"

definition physics_only :: ui_state where
  "physics_only = \<lparr>filterState_subject = True, filterState_date = False,
     subject_filter = ''Physics'', day_filter = [], month_filter = [], year_filter = []\<rparr>"

definition physics_day_11 :: ui_state where
  "physics_day_11 = \<lparr>filterState_subject = True, filterState_date = True,
     subject_filter = ''Physics'', day_filter = ''11'', month_filter = [], year_filter = []\<rparr>"

subsection \<open>\<^verbatim>\<open>Array.prototype.sort\<close>\<close>

text \<open>
  \<^verbatim>\<open>xs.sort(comparefn)\<close> is a stable sort. Which pairs it compares, and the order it
  leaves when the comparator is not a consistent ordering, are the engine's choice; the
  model is the stable insertion sort that inserts each element, from the last to the
  first, before the first element it does not come after. For a consistent comparator
  every stable sort returns the same array. A comparator result of \<^verbatim>\<open>NaN\<close> counts as
  \<open>0\<close>, and an exception thrown by the comparator leaves the sort. Only the sign of a
  comparator result is used, and the sign of a difference of two timestamps is the same
  in floating point as in the integers.
\<close>

datatype error = TypeError

text \<open>JavaScript subtraction on the Numbers of this script (integers and \<^verbatim>\<open>NaN\<close>).\<close>

definition number_minus :: "int option \<Rightarrow> int option \<Rightarrow> int option" where
  "number_minus a b =
     (case a of None \<Rightarrow> None | Some x \<Rightarrow> (case b of None \<Rightarrow> None | Some y \<Rightarrow> Some (x - y)))"

definition not_after :: "int option \<Rightarrow> bool" where
  "not_after v = (case v of None \<Rightarrow> True | Some n \<Rightarrow> n \<le> 0)"

fun insert_sorted :: "('a \<Rightarrow> 'a \<Rightarrow> error + int option) \<Rightarrow> 'a \<Rightarrow> 'a list \<Rightarrow> error + 'a list" where
  "insert_sorted comparefn x [] = Inr [x]"
| "insert_sorted comparefn x (y # ys) =
     (case comparefn x y of
        Inl e \<Rightarrow> Inl e
      | Inr v \<Rightarrow>
          if not_after v then Inr (x # y # ys)
          else (case insert_sorted comparefn x ys of
                  Inl e \<Rightarrow> Inl e
                | Inr zs \<Rightarrow> Inr (y # zs)))"

fun Array_sort :: "('a \<Rightarrow> 'a \<Rightarrow> error + int option) \<Rightarrow> 'a list \<Rightarrow> error + 'a list" where
  "Array_sort comparefn [] = Inr []"
| "Array_sort comparefn (x # xs) =
     (case Array_sort comparefn xs of
        Inl e \<Rightarrow> Inl e
      | Inr ys \<Rightarrow> insert_sorted comparefn x ys)"

subsection \<open>Grouped renderer\<close>

record enriched =
  e_raw :: string
  dateObj :: "parsed_date option"
  e_subjects :: "subject_group list"

record card =
  card_src :: string
  card_subject :: string
  card_date :: string

record subject_section =
  heading_subject :: string
  cards :: "card list"

record date_section =
  heading_date :: string
  subject_sections :: "subject_section list"

definition by_ts_desc :: "enriched \<Rightarrow> enriched \<Rightarrow> error + int option" where
  "by_ts_desc a b =
     (case dateObj b of
        None \<Rightarrow> Inl TypeError
      | Some pb \<Rightarrow>
          (case dateObj a of
             None \<Rightarrow> Inl TypeError
           | Some pa \<Rightarrow> Inr (number_minus (ts pb) (ts pa))))"

definition render_subject :: "string \<Rightarrow> subject_group \<Rightarrow> subject_section" where
  "render_subject rw s =
     \<lparr>heading_subject = subject s,
      cards = map (\<lambda>p. \<lparr>card_src = p, card_subject = subject s, card_date = rw\<rparr>) (images s)\<rparr>"

definition render_date :: "enriched \<Rightarrow> date_section" where
  "render_date dItem =
     \<lparr>heading_date = e_raw dItem,
      subject_sections = map (render_subject (e_raw dItem)) (e_subjects dItem)\<rparr>"

definition enrich :: "host \<Rightarrow> date_group \<Rightarrow> enriched" where
  "enrich h d = \<lparr>e_raw = date d, dateObj = parseDDMMYYYY h (date d), e_subjects = subjects d\<rparr>"

definition renderGroupedImages :: "host \<Rightarrow> note_collection \<Rightarrow> error + date_section list" where
  "renderGroupedImages h data =
     (let enriched = filter (\<lambda>x. dateObj x \<noteq> None) (map (enrich h) data)
      in case Array_sort by_ts_desc enriched of
           Inl e \<Rightarrow> Inl e
         | Inr enriched' \<Rightarrow> Inr (map render_date enriched'))"

text \<open>\<^verbatim>\<open>applyCombinedFilter\<close> as a whole: the filtered collection goes to the grouped
  renderer.\<close>

definition applyCombinedFilter :: "host \<Rightarrow> ui_state \<Rightarrow> note_collection \<Rightarrow> error + date_section list" where
  "applyCombinedFilter h u galleryData = renderGroupedImages h (filteredData u galleryData)"

text \<open>What the specification says of the renderer: the groups it keeps, the rendering of
  one group, the timestamp of a date string, and the order of two rendered groups.\<close>

definition three_parts :: "date_group \<Rightarrow> bool" where
  "three_parts d = (length (split CHR ''-'' (date d)) = 3)"

definition timestamp :: "host \<Rightarrow> string \<Rightarrow> int option" where
  "timestamp h s = (case parseDDMMYYYY h s of None \<Rightarrow> None | Some p \<Rightarrow> ts p)"

definition render_group :: "date_group \<Rightarrow> date_section" where
  "render_group d =
     \<lparr>heading_date = date d,
      subject_sections =
        map (\<lambda>s. \<lparr>heading_subject = subject s,
                  cards = map (\<lambda>p. \<lparr>card_src = p, card_subject = subject s, card_date = date d\<rparr>)
                            (images s)\<rparr>) (subjects d)\<rparr>"

definition newer_or_same :: "host \<Rightarrow> date_section \<Rightarrow> date_section \<Rightarrow> bool" where
  "newer_or_same h a b =
     (case timestamp h (heading_date a) of
        None \<Rightarrow> False
      | Some x \<Rightarrow> (case timestamp h (heading_date b) of None \<Rightarrow> False | Some y \<Rightarrow> y \<le> x))"

definition sane_time_zone :: "host \<Rightarrow> bool" where
  "sane_time_zone h = (\<forall>t. \<bar>UTC h t - t\<bar> \<le> msPerDay)"

definition stamp :: "enriched \<Rightarrow> int" where
  "stamp e = (case dateObj e of None \<Rightarrow> 0 | Some p \<Rightarrow> (case ts p of None \<Rightarrow> 0 | Some t \<Rightarrow> t))"

definition all_numeric :: "host \<Rightarrow> note_collection \<Rightarrow> bool" where
  "all_numeric h data = (\<forall>d \<in> set data. three_parts d \<longrightarrow> timestamp h (date d) \<noteq> None)"

definition nan_collection :: note_collection where
  "nan_collection =
     [\<lparr>date = ''01-01-2020'', subjects = []\<rparr>,
      \<lparr>date = ''x-y-z'', subjects = []\<rparr>,
      \<lparr>date = ''15-06-2021'', subjects = []\<rparr>]"

subsection \<open>Statistics\<close>

text \<open>\<^verbatim>\<open>new Set(xs)\<close>, read back with \<^verbatim>\<open>Array.from\<close> or \<^verbatim>\<open>.size\<close>: the distinct
  elements in the order of their first occurrence.\<close>

definition Set_from :: "'a list \<Rightarrow> 'a list" where
  "Set_from xs = foldl (\<lambda>acc x. if x \<in> set acc then acc else acc @ [x]) [] xs"

definition by_ts_asc :: "host \<Rightarrow> string \<Rightarrow> string \<Rightarrow> error + int option" where
  "by_ts_asc h a b =
     (let dateA = parseDDMMYYYY h a;
          dateB = parseDDMMYYYY h b
      in case dateA of
           None \<Rightarrow> Inl TypeError
         | Some pa \<Rightarrow>
             (case dateB of
                None \<Rightarrow> Inl TypeError
              | Some pb \<Rightarrow> Inr (number_minus (ts pa) (ts pb))))"

text \<open>\<^verbatim>\<open>x || 'N/A'\<close> for \<open>x\<close> a string or \<^verbatim>\<open>undefined\<close>: the empty string is
  falsy as well.\<close>

definition or_NA :: "string option \<Rightarrow> string" where
  "or_NA x = (case x of None \<Rightarrow> ''N/A'' | Some s \<Rightarrow> if s = [] then ''N/A'' else s)"

text \<open>The result of \<^verbatim>\<open>calculateStats\<close>; the subject breakdown, which no property
  below is about, is left out.\<close>

record stats =
  totalImages :: nat
  uniqueSubjects :: nat
  uniqueDates :: nat
  oldestDate :: string
  newestDate :: string

definition calculateStats :: "host \<Rightarrow> flat_record list \<Rightarrow> error + stats" where
  "calculateStats h flattenedImages =
     (let dates = Set_from (map fr_date flattenedImages)
      in case Array_sort (by_ts_asc h) dates of
           Inl e \<Rightarrow> Inl e
         | Inr sortedDates \<Rightarrow>
             Inr \<lparr>totalImages = length flattenedImages,
                  uniqueSubjects = length (Set_from (map fr_subject flattenedImages)),
                  uniqueDates = length (Set_from (map fr_date flattenedImages)),
                  oldestDate = or_NA (element sortedDates 0),
                  newestDate =
                    or_NA (if sortedDates = [] then None
                           else element sortedDates (length sortedDates - 1))\<rparr>)"

text \<open>A collection with a date of one piece.\<close>

definition malformed_stats_input :: note_collection where
  "malformed_stats_input =
     [\<lparr>date = ''2020'', subjects = [\<lparr>subject = ''Physics'', images = [''a.jpg'']\<rparr>]\<rparr>,
      \<lparr>date = ''01-01-2020'', subjects = [\<lparr>subject = ''Physics'', images = [''b.jpg'']\<rparr>]\<rparr>]"

subsection \<open>The filter engine on the store\<close>

text \<open>
  The collection lives in the store as arrays and objects that refer to one another, and
  \<^verbatim>\<open>slice\<close>, \<^verbatim>\<open>filter\<close>, \<^verbatim>\<open>map\<close> and the object spread of
  \<^verbatim>\<open>applyCombinedFilter\<close> create new arrays and objects that share the old ones. The
  store is a list of cells; an address is an index, and a new cell goes to the end. The
  cells have the shapes of the data model. A reference to a cell of another shape is
  outside the model: the functions below then return \<^term>\<open>None\<close>.
\<close>

type_synonym addr = nat

datatype cell =
    DateGroupObj string addr
  | SubjectGroupObj string addr
  | ObjArray "addr list"
  | StrArray "string list"

type_synonym store = "cell list"

definition alloc :: "store \<Rightarrow> cell \<Rightarrow> store \<times> addr" where
  "alloc st c = (st @ [c], length st)"

definition read_array :: "store \<Rightarrow> addr \<Rightarrow> addr list option" where
  "read_array st a = (case element st a of Some (ObjArray rs) \<Rightarrow> Some rs | _ \<Rightarrow> None)"

definition read_date_group :: "store \<Rightarrow> addr \<Rightarrow> (string \<times> addr) option" where
  "read_date_group st a =
     (case element st a of Some (DateGroupObj d sref) \<Rightarrow> Some (d, sref) | _ \<Rightarrow> None)"

definition read_subject_group :: "store \<Rightarrow> addr \<Rightarrow> (string \<times> addr) option" where
  "read_subject_group st a =
     (case element st a of Some (SubjectGroupObj s iref) \<Rightarrow> Some (s, iref) | _ \<Rightarrow> None)"

text \<open>\<^verbatim>\<open>filteredData.filter(dItem => ...)\<close> of the date stage: the references kept.\<close>

fun filter_by_date :: "store \<Rightarrow> date_filters \<Rightarrow> addr list \<Rightarrow> addr list option" where
  "filter_by_date st df [] = Some []"
| "filter_by_date st df (r # rs) =
     (case read_date_group st r of
        None \<Rightarrow> None
      | Some (d, sref) \<Rightarrow>
          (case filter_by_date st df rs of
             None \<Rightarrow> None
           | Some ks \<Rightarrow> Some (if matches_date_string df d then r # ks else ks)))"

text \<open>\<^verbatim>\<open>dItem.subjects.filter(s => s.subject === subject)\<close>: the references kept.\<close>

fun filter_by_subject :: "store \<Rightarrow> string \<Rightarrow> addr list \<Rightarrow> addr list option" where
  "filter_by_subject st sb [] = Some []"
| "filter_by_subject st sb (r # rs) =
     (case read_subject_group st r of
        None \<Rightarrow> None
      | Some (s, iref) \<Rightarrow>
          (case filter_by_subject st sb rs of
             None \<Rightarrow> None
           | Some ks \<Rightarrow> Some (if s = sb then r # ks else ks)))"

text \<open>\<^verbatim>\<open>filteredData.map(dItem => ({ ...dItem, subjects: filteredSubjects }))\<close>: every
  call of the callback creates the array of the subjects kept and the copy of the group.\<close>

fun map_filtered_subjects :: "store \<Rightarrow> string \<Rightarrow> addr list \<Rightarrow> (store \<times> addr list) option" where
  "map_filtered_subjects st sb [] = Some (st, [])"
| "map_filtered_subjects st sb (r # rs) =
     (case read_date_group st r of
        None \<Rightarrow> None
      | Some (d, sref) \<Rightarrow>
          (case read_array st sref of
             None \<Rightarrow> None
           | Some srefs \<Rightarrow>
               (case filter_by_subject st sb srefs of
                  None \<Rightarrow> None
                | Some kept \<Rightarrow>
                    (let (st1, filteredSubjects) = alloc st (ObjArray kept);
                         (st2, r') = alloc st1 (DateGroupObj d filteredSubjects)
                     in case map_filtered_subjects st2 sb rs of
                          None \<Rightarrow> None
                        | Some (st3, rs') \<Rightarrow> Some (st3, r' # rs')))))"

text \<open>\<^verbatim>\<open>.filter(dItem => dItem.subjects.length > 0)\<close>: the references kept.\<close>

fun filter_nonempty :: "store \<Rightarrow> addr list \<Rightarrow> addr list option" where
  "filter_nonempty st [] = Some []"
| "filter_nonempty st (r # rs) =
     (case read_date_group st r of
        None \<Rightarrow> None
      | Some (d, sref) \<Rightarrow>
          (case read_array st sref of
             None \<Rightarrow> None
           | Some srefs \<Rightarrow>
               (case filter_nonempty st rs of
                  None \<Rightarrow> None
                | Some ks \<Rightarrow> Some (if 0 < length srefs then r # ks else ks))))"

text \<open>\<^verbatim>\<open>applyCombinedFilter\<close> on the store, up to the call of the renderer: the new
  store and the reference that \<^verbatim>\<open>filteredData\<close> holds. The argument \<open>g\<close> is the
  reference in the variable \<^verbatim>\<open>galleryData\<close>, which the function does not assign.\<close>

definition date_stage_store :: "ui_state \<Rightarrow> store \<Rightarrow> addr \<Rightarrow> (store \<times> addr) option" where
  "date_stage_store u st fd =
     (case getSelectedDateFilters u of
        None \<Rightarrow> Some (st, fd)
      | Some df \<Rightarrow>
          if filterState_date u then
            (case read_array st fd of
               None \<Rightarrow> None
             | Some rs \<Rightarrow>
                 (case filter_by_date st df rs of
                    None \<Rightarrow> None
                  | Some ks \<Rightarrow> Some (alloc st (ObjArray ks))))
          else Some (st, fd))"

definition subject_stage_store :: "ui_state \<Rightarrow> store \<Rightarrow> addr \<Rightarrow> (store \<times> addr) option" where
  "subject_stage_store u st fd =
     (case getSelectedSubject u of
        None \<Rightarrow> Some (st, fd)
      | Some sb \<Rightarrow>
          if filterState_subject u then
            (case read_array st fd of
               None \<Rightarrow> None
             | Some rs \<Rightarrow>
                 (case map_filtered_subjects st sb rs of
                    None \<Rightarrow> None
                  | Some (st1, rs') \<Rightarrow>
                      (let (st2, mapped) = alloc st1 (ObjArray rs')
                       in case filter_nonempty st2 rs' of
                            None \<Rightarrow> None
                          | Some ks \<Rightarrow> Some (alloc st2 (ObjArray ks)))))
          else Some (st, fd))"

definition applyCombinedFilter_store :: "ui_state \<Rightarrow> store \<Rightarrow> addr \<Rightarrow> (store \<times> addr) option" where
  "applyCombinedFilter_store u st g =
     (case read_array st g of
        None \<Rightarrow> None
      | Some rs \<Rightarrow>
          (let (st0, fd0) = alloc st (ObjArray rs)
           in case date_stage_store u st0 fd0 of
                None \<Rightarrow> None
              | Some (st1, fd1) \<Rightarrow> subject_stage_store u st1 fd1))"

text \<open>The collection that a reference stands for.\<close>

definition read_images :: "store \<Rightarrow> addr \<Rightarrow> string list option" where
  "read_images st a = (case element st a of Some (StrArray ps) \<Rightarrow> Some ps | _ \<Rightarrow> None)"

definition read_subject :: "store \<Rightarrow> addr \<Rightarrow> subject_group option" where
  "read_subject st a =
     (case read_subject_group st a of
        None \<Rightarrow> None
      | Some (s, iref) \<Rightarrow>
          (case read_images st iref of
             None \<Rightarrow> None
           | Some ps \<Rightarrow> Some \<lparr>subject = s, images = ps\<rparr>))"

definition read_subjects :: "store \<Rightarrow> addr \<Rightarrow> subject_group list option" where
  "read_subjects st a =
     (case read_array st a of None \<Rightarrow> None | Some rs \<Rightarrow> those (map (read_subject st) rs))"

definition read_date :: "store \<Rightarrow> addr \<Rightarrow> date_group option" where
  "read_date st a =
     (case read_date_group st a of
        None \<Rightarrow> None
      | Some (d, sref) \<Rightarrow>
          (case read_subjects st sref of
             None \<Rightarrow> None
           | Some ss \<Rightarrow> Some \<lparr>date = d, subjects = ss\<rparr>))"

definition read_collection :: "store \<Rightarrow> addr \<Rightarrow> note_collection option" where
  "read_collection st a =
     (case read_array st a of None \<Rightarrow> None | Some rs \<Rightarrow> those (map (read_date st) rs))"

text \<open>The scenario of the specification in a store, and a filter state with both
  filters switched off.\<close>

definition scenario_store :: store where
  "scenario_store =
     [StrArray [''a.jpg''],
      SubjectGroupObj ''Chemistry'' 0,
      ObjArray [1],
      DateGroupObj ''10-10-2025'' 2,
      StrArray [''b.jpg'', ''c.jpg''],
      SubjectGroupObj ''Physics'' 4,
      ObjArray [5],
      DateGroupObj ''11-10-2025'' 6,
      ObjArray [3, 7]]"


definition filters_off :: ui_state where
  "filters_off = \<lparr>filterState_subject = False, filterState_date = False,
     subject_filter = ''Physics'', day_filter = ''11'', month_filter = [], year_filter = []\<rparr>"

section \<open>Properties\<close>

subsection \<open>Strings\<close>

lemma split_not_Nil: "split sep s \<noteq> []"
  by (induction s) (auto split: list.splits)

lemma length_split: "length (split sep s) = Suc (count_list s sep)"
  by (induction s) (auto split: list.splits simp: split_not_Nil)

subsection \<open>Day numbers\<close>

text \<open>The day number counts the days of the calendar: it is 0 on 1 January 1970 and grows
  by one from each date to the next, also across the end of a month and of a year.\<close>

lemma div_step:
  assumes "0 < (k::int)"
  shows "(a + 1) div k = a div k + (if (a + 1) mod k = 0 then 1 else 0)"
proof -
  define q where "q = a div k"
  define r where "r = a mod k"
  have a: "a + 1 = (r + 1) + k * q"
    by (simp add: q_def r_def)
  have r: "0 \<le> r" "r < k"
    using assms by (simp_all add: r_def)
  have d: "(a + 1) div k = q + (r + 1) div k"
    unfolding a using assms by simp
  have m: "(a + 1) mod k = (r + 1) mod k"
    unfolding a by simp
  show ?thesis
  proof (cases "r + 1 = k")
    case True
    then show ?thesis
      using assms d m by (simp add: q_def)
  next
    case False
    with r have "r + 1 < k" by simp
    then have "(r + 1) div k = 0" "(r + 1) mod k = r + 1"
      using r by simp_all
    then show ?thesis
      using d m r by (simp add: q_def)
  qed
qed

lemma mod_shift:
  "((y::int) - 1968) mod 4 = y mod 4"
  "((y::int) - 1900) mod 100 = y mod 100"
  "((y::int) - 1600) mod 400 = y mod 400"
proof -
  have "(y + 4 * (- 492)) mod 4 = y mod 4" by (rule mod_mult_self2)
  then show "(y - 1968) mod 4 = y mod 4" by simp
  have "(y + 100 * (- 19)) mod 100 = y mod 100" by (rule mod_mult_self2)
  then show "(y - 1900) mod 100 = y mod 100" by simp
  have "(y + 400 * (- 4)) mod 400 = y mod 400" by (rule mod_mult_self2)
  then show "(y - 1600) mod 400 = y mod 400" by simp
qed

lemma leap_divides:
  "(y::int) mod 400 = 0 \<Longrightarrow> y mod 100 = 0" "(y::int) mod 100 = 0 \<Longrightarrow> y mod 4 = 0"
proof -
  have "(400::int) = 100 * 4" "(100::int) = 4 * 25" by simp_all
  then show "y mod 400 = 0 \<Longrightarrow> y mod 100 = 0" "y mod 100 = 0 \<Longrightarrow> y mod 4 = 0"
    by (metis dvd_triv_left mod_0 mod_mod_cancel)+
qed

lemma year_length:
  fixes A B C y :: int
  assumes "p400 \<Longrightarrow> p100" "p100 \<Longrightarrow> p4"
  shows "365 * (y + 1 - 1970) + (A + (if p4 then 1 else 0)) - (B + (if p100 then 1 else 0))
           + (C + (if p400 then 1 else 0))
         = 365 * (y - 1970) + A - B + C + (if p4 \<and> (\<not> p100 \<or> p400) then 366 else 365)"
  using assms by (cases p4; cases p100; cases p400) simp_all

lemma DayFromYear_Suc:
  "DayFromYear (y + 1) = DayFromYear y + (if InLeapYear y then 366 else 365)"
proof -
  have a: "(y + 1 - 1969) div 4 = (y - 1969) div 4 + (if y mod 4 = 0 then 1 else 0)"
    using div_step[of 4 "y - 1969"] mod_shift(1)[of y] by simp
  have b: "(y + 1 - 1901) div 100 = (y - 1901) div 100 + (if y mod 100 = 0 then 1 else 0)"
    using div_step[of 100 "y - 1901"] mod_shift(2)[of y] by simp
  have c: "(y + 1 - 1601) div 400 = (y - 1601) div 400 + (if y mod 400 = 0 then 1 else 0)"
    using div_step[of 400 "y - 1601"] mod_shift(3)[of y] by simp
  show ?thesis
    unfolding DayFromYear_def InLeapYear_def a b c
    by (rule year_length) (rule leap_divides(1), assumption, rule leap_divides(2), assumption)
qed


lemma month_disj:
  assumes "1 \<le> (m::nat)" "m \<le> 12"
  shows "m \<in> {1, 2, 3, 4, 5, 6, 7, 8, 9, 10, 11, 12}"
proof -
  have "m \<in> set [1..<13]" using assms by simp
  also have "[1..<13] = [1, 2, 3, 4, 5, 6, 7, 8, 9, 10, 11, 12::nat]"
    by (simp add: upt_rec)
  finally show ?thesis by simp
qed

lemma day_number_epoch: "day_number (1970, 1, 1) = 0"
  by (simp add: day_number_def MakeDay_def DayFromYear_def days_before_month_def)

lemma day_number_month_end:
  assumes "m \<in> {1, 2, 3, 4, 5, 6, 7, 8, 9, 10, 11}"
  shows "day_number (y, m + 1, 1) = day_number (y, m, DaysInMonth y m) + 1"
  using assms
  by (auto simp: day_number_def MakeDay_def days_before_month_def DaysInMonth_def)

lemma day_number_year_end: "day_number (y + 1, 1, 1) = day_number (y, 12, 31) + 1"
  by (simp add: day_number_def MakeDay_def DayFromYear_Suc days_before_month_def)

lemma day_number_next:
  assumes "1 \<le> m" "m \<le> 12" "1 \<le> d" "d \<le> DaysInMonth y m"
  shows "day_number (next_date (y, m, d)) = day_number (y, m, d) + 1"
proof (cases "d < DaysInMonth y m")
  case True
  then show ?thesis
    by (simp add: next_date_def day_number_def MakeDay_def)
next
  case False
  with assms(4) have d: "d = DaysInMonth y m" by simp
  show ?thesis
  proof (cases "m = 12")
    case True
    then show ?thesis
      using d day_number_year_end[of y] by (simp add: next_date_def DaysInMonth_def)
  next
    case False
    then have "m \<in> {1, 2, 3, 4, 5, 6, 7, 8, 9, 10, 11}"
      using month_disj[OF assms(1,2)] by simp
    then show ?thesis
      using d False assms(2) day_number_month_end[of m y] by (simp add: next_date_def)
  qed
qed

subsection \<open>Date parser\<close>

lemma split_no_sep: "sep \<notin> set s \<Longrightarrow> split sep s = [s]"
  by (induction s) auto

lemma split_append_sep: "sep \<notin> set a \<Longrightarrow> split sep (a @ sep # b) = a # split sep b"
  by (induction a) (auto split: list.splits)

lemma digits_no_dash: "digits s \<Longrightarrow> CHR ''-'' \<notin> set s"
  by (auto simp: digits_def list_all_iff is_digit_def)

lemma split_three:
  "digits dd \<Longrightarrow> digits mm \<Longrightarrow> digits yyyy \<Longrightarrow>
   split CHR ''-'' (dd @ ''-'' @ mm @ ''-'' @ yyyy) = [dd, mm, yyyy]"
  by (simp add: split_append_sep split_no_sep digits_no_dash)

lemma padStart_zero_pad2:
  assumes "s \<noteq> []"
  shows "padStart 2 CHR ''0'' s = zero_pad2 s"
proof (cases s)
  case Nil
  with assms show ?thesis by simp
next
  case (Cons a t)
  then show ?thesis
    by (cases t) (simp_all add: padStart_def zero_pad2_def)
qed

lemma num_zero_pad2: "num_of_digits (zero_pad2 s) = num_of_digits s"
  by (simp add: zero_pad2_def num_of_digits_def digit_val_def)

lemma zero_pad2_shape:
  "digits s \<Longrightarrow> length s = 1 \<or> length s = 2 \<Longrightarrow>
   \<exists>a b. zero_pad2 s = [a, b] \<and> is_digit a \<and> is_digit b"
  by (cases s; cases "tl s") (auto simp: zero_pad2_def digits_def is_digit_def)

lemma year_shape:
  "digits s \<Longrightarrow> length s = 4 \<Longrightarrow>
   \<exists>a b c d. s = [a, b, c, d] \<and> is_digit a \<and> is_digit b \<and> is_digit c \<and> is_digit d"
  by (auto simp: digits_def length_Suc_conv numeral_eq_Suc)

lemma iso_local_midnight_valid:
  assumes "valid_ddmmyyyy dd mm yyyy"
  shows "iso_local_midnight (yyyy @ ''-'' @ zero_pad2 mm @ ''-'' @ zero_pad2 dd @ ''T00:00:00'')
         = Some (num_of_digits yyyy, num_of_digits mm, num_of_digits dd)"
proof -
  from assms obtain a b c d where y: "yyyy = [a, b, c, d]"
    "is_digit a" "is_digit b" "is_digit c" "is_digit d"
    using year_shape unfolding valid_ddmmyyyy_def by blast
  from assms obtain m1 m2 where m: "zero_pad2 mm = [m1, m2]" "is_digit m1" "is_digit m2"
    using zero_pad2_shape unfolding valid_ddmmyyyy_def by blast
  from assms obtain d1 d2 where d: "zero_pad2 dd = [d1, d2]" "is_digit d1" "is_digit d2"
    using zero_pad2_shape unfolding valid_ddmmyyyy_def by blast
  have "num_of_digits [m1, m2] = num_of_digits mm" "num_of_digits [d1, d2] = num_of_digits dd"
    using m(1) d(1) num_zero_pad2 by metis+
  then show ?thesis
    using y m d by simp
qed

lemma parse_valid:
  assumes "valid_ddmmyyyy dd mm yyyy"
  shows "parseDDMMYYYY h (dd @ ''-'' @ mm @ ''-'' @ yyyy)
    = Some \<lparr>iso = yyyy @ ''-'' @ zero_pad2 mm @ ''-'' @ zero_pad2 dd,
            ts = TimeClip (UTC h (local_midnight (num_of_digits yyyy) (num_of_digits mm) (num_of_digits dd))),
            raw = dd @ ''-'' @ mm @ ''-'' @ yyyy\<rparr>"
proof -
  have sp: "split CHR ''-'' (dd @ ''-'' @ mm @ ''-'' @ yyyy) = [dd, mm, yyyy]"
    using assms split_three[of dd mm yyyy] by (simp add: valid_ddmmyyyy_def)
  have ne: "dd \<noteq> []" "mm \<noteq> []" using assms by (auto simp: valid_ddmmyyyy_def)
  have rng: "1 \<le> num_of_digits mm" "num_of_digits mm \<le> 12" "1 \<le> num_of_digits dd"
    "num_of_digits dd \<le> DaysInMonth (int (num_of_digits yyyy)) (num_of_digits mm)"
    using assms by (simp_all add: valid_ddmmyyyy_def)
  have gt: "Date_getTime h ((yyyy @ ''-'' @ zero_pad2 mm @ ''-'' @ zero_pad2 dd) @ ''T00:00:00'')
     = TimeClip (UTC h (local_midnight (num_of_digits yyyy) (num_of_digits mm) (num_of_digits dd)))"
    using iso_local_midnight_valid[OF assms] rng
    by (simp add: Date_getTime_def local_midnight_def)
  show ?thesis
    unfolding parseDDMMYYYY_def Let_def sp
    using gt by (simp add: padStart_zero_pad2 ne)
qed

lemma parse_None_iff: "parseDDMMYYYY h s = None \<longleftrightarrow> length (split CHR ''-'' s) \<noteq> 3"
  by (simp add: parseDDMMYYYY_def Let_def)

lemma valid_example: "valid_ddmmyyyy ''1'' ''6'' ''2021''"
  by (simp add: valid_ddmmyyyy_def digits_def is_digit_def num_of_digits_def digit_val_def
      DaysInMonth_def)

lemma local_midnight_example: "local_midnight 2021 6 1 = 1622505600000"
  by (simp add: local_midnight_def MakeDay_def DayFromYear_def days_before_month_def
      InLeapYear_def msPerDay_def)

text \<open>
  C7. The date parser returns \<^verbatim>\<open>null\<close> exactly when the input does not split at
  \<^verbatim>\<open>-\<close> into three pieces. On a valid input (day and month of one or two digits, a
  year of four, a day that exists) it returns the ISO form year, month, day, with day and
  month padded to two digits, the input as \<^verbatim>\<open>raw\<close>, and as timestamp the time value of
  local midnight of that date (through the host's time zone).
\<close>

theorem parseDDMMYYYY_contract:
  "(parseDDMMYYYY h s = None \<longleftrightarrow> length (split CHR ''-'' s) \<noteq> 3)
   \<and> (valid_ddmmyyyy dd mm yyyy \<longrightarrow>
        parseDDMMYYYY h (dd @ ''-'' @ mm @ ''-'' @ yyyy)
        = Some \<lparr>iso = yyyy @ ''-'' @ zero_pad2 mm @ ''-'' @ zero_pad2 dd,
                ts = TimeClip (UTC h (local_midnight (num_of_digits yyyy)
                                        (num_of_digits mm) (num_of_digits dd))),
                raw = dd @ ''-'' @ mm @ ''-'' @ yyyy\<rparr>)"
  using parse_None_iff parse_valid by blast

theorem parseDDMMYYYY_contract_witness:
  "valid_ddmmyyyy ''1'' ''6'' ''2021''
   \<and> parseDDMMYYYY utc_host ''1-6-2021''
       = Some \<lparr>iso = ''2021-06-01'', ts = Some 1622505600000, raw = ''1-6-2021''\<rparr>
   \<and> parseDDMMYYYY utc_host ''2021'' = None"
proof -
  have n: "num_of_digits ''2021'' = 2021" "num_of_digits ''6'' = 6" "num_of_digits ''1'' = 1"
    by (simp_all add: num_of_digits_def digit_val_def)
  have "parseDDMMYYYY utc_host ''2021'' = None"
    using parseDDMMYYYY_contract [of utc_host "''2021''" "''1''" "''6''" "''2021''"]
    by simp
  moreover have "parseDDMMYYYY utc_host ''1-6-2021''
       = Some \<lparr>iso = ''2021-06-01'', ts = Some 1622505600000, raw = ''1-6-2021''\<rparr>"
    using parseDDMMYYYY_contract [of utc_host "''2021''" "''1''" "''6''" "''2021''"]
      valid_example local_midnight_example
    by (simp add: n zero_pad2_def TimeClip_def utc_host_def)
  ultimately show ?thesis using valid_example by simp
qed

subsection \<open>Flattener\<close>

lemma fold_images:
  "foldl (\<lambda>arr p. arr @ [\<lparr>fr_date = date d, fr_subject = subject s, fr_path = p\<rparr>]) acc ps
   = acc @ map (\<lambda>p. \<lparr>fr_date = date d, fr_subject = subject s, fr_path = p\<rparr>) ps"
  by (induction ps arbitrary: acc) simp_all

lemma fold_subjects:
  "foldl (\<lambda>arr s.
      foldl (\<lambda>arr p. arr @ [\<lparr>fr_date = date d, fr_subject = subject s, fr_path = p\<rparr>])
            arr (images s)) acc ss
   = acc @ concat (map (flat_of_subject d) ss)"
  by (induction ss arbitrary: acc) (simp_all add: fold_images flat_of_subject_def)

lemma fold_dates:
  "foldl (\<lambda>arr d.
      foldl (\<lambda>arr s.
         foldl (\<lambda>arr p. arr @ [\<lparr>fr_date = date d, fr_subject = subject s, fr_path = p\<rparr>])
               arr (images s))
            arr (subjects d)) acc ds
   = acc @ concat (map flat_of_date ds)"
  by (induction ds arbitrary: acc) (simp_all add: fold_subjects flat_of_date_def)

lemma getFlattenedImages_eq: "getFlattenedImages data = flatten_spec data"
  by (simp add: getFlattenedImages_def flatten_spec_def fold_dates)

lemma length_flat_of_date:
  "length (flat_of_date d) = sum_list (map (\<lambda>s. length (images s)) (subjects d))"
  by (simp add: flat_of_date_def flat_of_subject_def length_concat comp_def)

lemma length_flatten_spec: "length (flatten_spec data) = count_images data"
  by (simp add: flatten_spec_def count_images_def length_concat comp_def length_flat_of_date)

text \<open>
  C8. For every collection the flattener returns exactly as many records as there are
  images in all subjects of all dates, and returns them in the order of the dates, then
  of the subjects, then of the images, as they stand in the collection.
\<close>

theorem flatten_count_and_order:
  "length (getFlattenedImages data) = count_images data
   \<and> getFlattenedImages data = flatten_spec data"
  by (simp add: getFlattenedImages_eq length_flatten_spec)

subsection \<open>Filter engine\<close>

lemma date_filtering_idem: "date_filtering df (date_filtering df xs) = date_filtering df xs"
  by (simp add: date_filtering_def)

lemma subject_filtering_idem: "subject_filtering sb (subject_filtering sb xs) = subject_filtering sb xs"
  by (induction xs) (simp_all add: subject_filtering_def)

lemma stages_commute:
  "subject_filtering sb (date_filtering df xs) = date_filtering df (subject_filtering sb xs)"
  by (induction xs) (simp_all add: subject_filtering_def date_filtering_def date_matches_def)

lemma filteredData_idem: "filteredData u (filteredData u xs) = filteredData u xs"
  by (simp add: filteredData_def Let_def date_filtering_idem subject_filtering_idem
      stages_commute split: option.splits)

lemma count_filter_le: "count_images (filter P xs) \<le> count_images xs"
  by (induction xs) (simp_all add: count_images_def)

lemma sum_filter_le: "sum_list (map f (filter P xs)) \<le> (sum_list (map f xs) :: nat)"
  by (induction xs) simp_all

lemma count_subject_filtering_le: "count_images (subject_filtering sb xs) \<le> count_images xs"
proof (induction xs)
  case Nil
  show ?case by (simp add: subject_filtering_def)
next
  case (Cons d ds)
  have "sum_list (map (\<lambda>s. length (images s)) (filter (\<lambda>s. subject s = sb) (subjects d)))
        \<le> sum_list (map (\<lambda>s. length (images s)) (subjects d))"
    by (rule sum_filter_le)
  with Cons show ?case
    by (simp add: subject_filtering_def count_images_def)
qed

lemma count_filteredData_le: "count_images (filteredData u xs) \<le> count_images xs"
proof -
  have a: "count_images (date_filtering df ys) \<le> count_images ys" for df ys
    by (simp add: date_filtering_def count_filter_le)
  have b: "count_images (subject_filtering sb (date_filtering df ys)) \<le> count_images ys" for sb df ys
    using count_subject_filtering_le[of sb "date_filtering df ys"] a[of df ys] by linarith
  show ?thesis
    by (simp add: filteredData_def Let_def a b count_subject_filtering_le split: option.splits)
qed


lemma date_matches_eq_spec:
  "date_matches \<lparr>day = day_filter u, month = month_filter u, year = year_filter u\<rparr> d
   = date_matches_spec u d"
  by (auto simp: date_matches_def matches_date_string_def date_matches_spec_def
      field_matches_def element_def Let_def)

lemma filteredData_date_active:
  assumes "date_active u"
  shows "filteredData u xs
         = filteredData (u\<lparr>filterState_date := False\<rparr>) (filter (date_matches_spec u) xs)"
proof -
  have "getSelectedDateFilters u
        = Some \<lparr>day = day_filter u, month = month_filter u, year = year_filter u\<rparr>"
    using assms by (auto simp: getSelectedDateFilters_def date_active_def)
  moreover have "filterState_date u" using assms by (simp add: date_active_def)
  moreover have "date_filtering \<lparr>day = day_filter u, month = month_filter u, year = year_filter u\<rparr> xs
        = filter (date_matches_spec u) xs"
    by (simp add: date_filtering_def date_matches_eq_spec[abs_def] cong: filter_cong)
  ultimately show ?thesis
    by (simp add: filteredData_def getSelectedDateFilters_def getSelectedSubject_def)
qed

lemma filteredData_date_empty:
  assumes "day_filter u = []" "month_filter u = []" "year_filter u = []"
  shows "filteredData u xs = filteredData (u\<lparr>filterState_date := False\<rparr>) xs"
  using assms by (simp add: filteredData_def getSelectedDateFilters_def getSelectedSubject_def)

lemma filteredData_no_subject:
  assumes "getSelectedSubject u = None"
  shows "filteredData (u\<lparr>filterState_date := False\<rparr>) xs = xs"
  using assms
  by (simp add: filteredData_def getSelectedDateFilters_def getSelectedSubject_def
      split: if_splits)

lemma subject_filtering_spec:
  "subject_filtering sb xs = map (keep_subject sb) (filter (has_subject sb) xs)"
proof (induction xs)
  case Nil
  show ?case by (simp add: subject_filtering_def)
next
  case (Cons d ds)
  have "(filter (\<lambda>s. subject s = sb) (subjects d) \<noteq> []) = has_subject sb d"
    by (auto simp: has_subject_def list_ex_iff filter_empty_conv)
  with Cons show ?case
    by (simp add: subject_filtering_def keep_subject_def)
qed

lemma filteredData_subject_active:
  assumes "subject_active u"
  shows "filteredData u xs
         = subject_filtering (subject_filter u) (filteredData (u\<lparr>filterState_subject := False\<rparr>) xs)"
  using assms
  by (simp add: filteredData_def getSelectedDateFilters_def getSelectedSubject_def
      subject_active_def split: option.splits)


lemmas filter_defs = filteredData_def getSelectedSubject_def getSelectedDateFilters_def
  date_filtering_def subject_filtering_def date_matches_def matches_date_string_def
  element_def

text \<open>
  C3. When the date filter is switched on and a day, a month or a year is selected, the
  filter engine keeps exactly the date groups whose date, split at \<^verbatim>\<open>-\<close>, has every
  selected field as the piece in its position, compared as strings (what remains of the
  engine is the subject stage, run on those groups; with no subject selected the output is
  those groups). When day, month and year are all empty the engine does what it does with
  the date filter switched off.
\<close>

theorem date_filter_contract:
  "(date_active u \<longrightarrow>
      filteredData u data
      = filteredData (u\<lparr>filterState_date := False\<rparr>) (filter (date_matches_spec u) data))
   \<and> (date_active u \<and> getSelectedSubject u = None \<longrightarrow>
      filteredData u data = filter (date_matches_spec u) data)
   \<and> (day_filter u = [] \<and> month_filter u = [] \<and> year_filter u = [] \<longrightarrow>
      filteredData u data = filteredData (u\<lparr>filterState_date := False\<rparr>) data)"
  using filteredData_date_active filteredData_date_empty filteredData_no_subject
  by (metis (no_types, lifting))

theorem date_filter_contract_witness:
  "date_active month_october \<and> getSelectedSubject month_october = None
   \<and> filteredData month_october scenario = scenario
   \<and> filteredData day_1 (\<lparr>date = ''01-10-2025'', subjects = []\<rparr> # scenario) = []
   \<and> filteredData date_on_nothing_selected scenario
       = filteredData (date_on_nothing_selected\<lparr>filterState_date := False\<rparr>) scenario"
proof -
  have a: "date_active month_october" "getSelectedSubject month_october = None"
    by (simp_all add: date_active_def getSelectedSubject_def month_october_def)
  have b: "date_active day_1" "getSelectedSubject day_1 = None"
    by (simp_all add: date_active_def getSelectedSubject_def day_1_def)
  have "filteredData month_october scenario = filter (date_matches_spec month_october) scenario"
    using date_filter_contract [of month_october scenario] a by blast
  then have "filteredData month_october scenario = scenario"
    by (simp add: date_matches_spec_def field_matches_def scenario_def month_october_def)
  moreover have "filteredData day_1 (\<lparr>date = ''01-10-2025'', subjects = []\<rparr> # scenario)
      = filter (date_matches_spec day_1) (\<lparr>date = ''01-10-2025'', subjects = []\<rparr> # scenario)"
    using date_filter_contract [of day_1 "\<lparr>date = ''01-10-2025'', subjects = []\<rparr> # scenario"] b
    by blast
  then have "filteredData day_1 (\<lparr>date = ''01-10-2025'', subjects = []\<rparr> # scenario) = []"
    by (simp add: date_matches_spec_def field_matches_def scenario_def day_1_def)
  moreover have "filteredData date_on_nothing_selected scenario
       = filteredData (date_on_nothing_selected\<lparr>filterState_date := False\<rparr>) scenario"
    using date_filter_contract [of date_on_nothing_selected scenario]
    by (simp add: date_on_nothing_selected_def)
  ultimately show ?thesis using a by blast
qed

text \<open>
  C4. When the subject filter is switched on and a subject is selected, the output is made
  from the date groups that the date stage retained: a group with no subject group of the
  selected subject is dropped, and every other group is kept with exactly its subject
  groups of the selected subject.
\<close>

theorem subject_filter_contract:
  "subject_active u \<longrightarrow>
     filteredData u data
     = map (keep_subject (subject_filter u))
         (filter (has_subject (subject_filter u))
            (filteredData (u\<lparr>filterState_subject := False\<rparr>) data))"
  by (simp add: filteredData_subject_active subject_filtering_spec)

theorem subject_filter_contract_witness:
  "subject_active physics_only
   \<and> filteredData physics_only scenario
       = [\<lparr>date = ''11-10-2025'',
           subjects = [\<lparr>subject = ''Physics'', images = [''b.jpg'', ''c.jpg'']\<rparr>]\<rparr>]"
proof -
  have a: "subject_active physics_only"
    by (simp add: subject_active_def physics_only_def)
  have b: "filteredData (physics_only\<lparr>filterState_subject := False\<rparr>) scenario = scenario"
    by (simp add: filter_defs physics_only_def)
  show ?thesis
    using subject_filter_contract [of physics_only scenario] a b
    by (simp add: keep_subject_def has_subject_def scenario_def physics_only_def)
qed

text \<open>
  C5. Filtering the output of the filter engine again, with the same filter state, gives
  the same output.
\<close>

theorem filter_idempotent: "filteredData u (filteredData u data) = filteredData u data"
  by (rule filteredData_idem)

theorem filter_idempotent_witness:
  "filteredData physics_day_11 (filteredData physics_day_11 scenario)
   = [\<lparr>date = ''11-10-2025'',
           subjects = [\<lparr>subject = ''Physics'', images = [''b.jpg'', ''c.jpg'']\<rparr>]\<rparr>]"
proof -
  have "filteredData physics_day_11 scenario
   = [\<lparr>date = ''11-10-2025'',
           subjects = [\<lparr>subject = ''Physics'', images = [''b.jpg'', ''c.jpg'']\<rparr>]\<rparr>]"
    by (simp add: filter_defs physics_day_11_def scenario_def)
  then show ?thesis
    using filter_idempotent [of physics_day_11 scenario] by simp
qed

text \<open>
  C6. The output of the filter engine never has more images than its input.
\<close>

theorem filter_never_adds_images: "count_images (filteredData u data) \<le> count_images data"
  by (rule count_filteredData_le)

theorem filter_never_adds_images_witness:
  "count_images (filteredData physics_only scenario) \<le> 3"
proof -
  have "count_images scenario = 3"
    by (simp add: count_images_def scenario_def)
  then show ?thesis
    using filter_never_adds_images [of physics_only scenario] by simp
qed

lemma filteredData_swapped_eq: "filteredData_swapped u data = filteredData u data"
  by (simp add: filteredData_swapped_def filteredData_def Let_def stages_commute
      split: option.splits)

text \<open>
  C10. With both filters switched on and a selection in each, running the subject stage
  first and the date stage second gives the same output as the order of the script.
\<close>

theorem filter_stages_commute:
  "date_active u \<and> subject_active u \<longrightarrow> filteredData_swapped u data = filteredData u data"
  by (simp add: filteredData_swapped_eq)

theorem filter_stages_commute_witness:
  "date_active physics_day_11 \<and> subject_active physics_day_11
   \<and> filteredData_swapped physics_day_11 scenario
   = [\<lparr>date = ''11-10-2025'',
           subjects = [\<lparr>subject = ''Physics'', images = [''b.jpg'', ''c.jpg'']\<rparr>]\<rparr>]"
proof -
  have a: "date_active physics_day_11" "subject_active physics_day_11"
    by (simp_all add: date_active_def subject_active_def physics_day_11_def)
  have "filteredData physics_day_11 scenario
   = [\<lparr>date = ''11-10-2025'',
           subjects = [\<lparr>subject = ''Physics'', images = [''b.jpg'', ''c.jpg'']\<rparr>]\<rparr>]"
    by (simp add: filter_defs physics_day_11_def scenario_def)
  then show ?thesis
    using filter_stages_commute [of physics_day_11 scenario] a by simp
qed

subsection \<open>Grouped renderer\<close>

lemma insert_sorted_mset:
  assumes "\<forall>y \<in> set ys. \<exists>v. comparefn x y = Inr v"
  shows "\<exists>zs. insert_sorted comparefn x ys = Inr zs \<and> mset zs = add_mset x (mset ys)"
  using assms
proof (induction ys)
  case Nil
  show ?case by simp
next
  case (Cons y ys)
  then obtain v where v: "comparefn x y = Inr v" by auto
  from Cons obtain zs where zs: "insert_sorted comparefn x ys = Inr zs"
    "mset zs = add_mset x (mset ys)" by auto
  show ?case using v zs by simp
qed

lemma Array_sort_mset:
  assumes "\<forall>a \<in> set xs. \<forall>b \<in> set xs. \<exists>v. comparefn a b = Inr v"
  shows "\<exists>ys. Array_sort comparefn xs = Inr ys \<and> mset ys = mset xs"
  using assms
proof (induction xs)
  case Nil
  show ?case by simp
next
  case (Cons x xs)
  then obtain ys where ys: "Array_sort comparefn xs = Inr ys" "mset ys = mset xs" by auto
  have "set ys = set xs" using ys(2) by (metis mset_eq_setD)
  with Cons.prems have "\<forall>y \<in> set ys. \<exists>v. comparefn x y = Inr v" by auto
  then have "\<exists>zs. insert_sorted comparefn x ys = Inr zs \<and> mset zs = add_mset x (mset ys)"
    by (rule insert_sorted_mset)
  with ys show ?case by auto
qed

lemma insert_sorted_insort:
  assumes "\<forall>y \<in> set ys. comparefn x y = Inr (Some (key x - key y))"
  shows "insert_sorted comparefn x ys = Inr (insort_key key x ys)"
  using assms by (induction ys) (auto simp: not_after_def)

lemma Array_sort_sort_key:
  assumes "\<forall>a \<in> set xs. \<forall>b \<in> set xs. comparefn a b = Inr (Some (key a - key b))"
  shows "Array_sort comparefn xs = Inr (sort_key key xs)"
  using assms
proof (induction xs)
  case Nil
  show ?case by simp
next
  case (Cons x xs)
  then have ih: "Array_sort comparefn xs = Inr (sort_key key xs)" by auto
  have "\<forall>y \<in> set (sort_key key xs). comparefn x y = Inr (Some (key x - key y))"
    using Cons.prems by auto
  then have "insert_sorted comparefn x (sort_key key xs) = Inr (insort_key key x (sort_key key xs))"
    by (rule insert_sorted_insort)
  with ih show ?case by simp
qed


lemma enriched_eq:
  "filter (\<lambda>x. dateObj x \<noteq> None) (map (enrich h) data) = map (enrich h) (filter three_parts data)"
  by (induction data) (simp_all add: enrich_def three_parts_def parse_None_iff)

lemma render_date_enrich: "render_date (enrich h d) = render_group d"
  by (simp add: render_date_def enrich_def render_group_def render_subject_def)

lemma by_ts_desc_total:
  assumes "three_parts a" "three_parts b"
  shows "\<exists>v. by_ts_desc (enrich h a) (enrich h b) = Inr v"
proof -
  have "parseDDMMYYYY h (date a) \<noteq> None" "parseDDMMYYYY h (date b) \<noteq> None"
    using assms by (simp_all add: three_parts_def parse_None_iff)
  then show ?thesis
    by (auto simp: by_ts_desc_def enrich_def)
qed

lemma render_returns:
  "\<exists>out. renderGroupedImages h data = Inr out
         \<and> mset out = mset (map render_group (filter three_parts data))"
proof -
  let ?en = "map (enrich h) (filter three_parts data)"
  have "\<forall>a \<in> set ?en. \<forall>b \<in> set ?en. \<exists>v. by_ts_desc a b = Inr v"
    using by_ts_desc_total by auto
  then obtain ys where ys: "Array_sort by_ts_desc ?en = Inr ys" "mset ys = mset ?en"
    using Array_sort_mset by blast
  have "mset (map render_date ys) = mset (map render_date ?en)"
    using ys(2) by (metis mset_map)
  also have "map render_date ?en = map render_group (filter three_parts data)"
    by (simp add: render_date_enrich)
  finally show ?thesis
    unfolding renderGroupedImages_def Let_def enriched_eq
    using ys(1) by simp
qed

lemma timestamp_enrich:
  assumes "three_parts d" "timestamp h (date d) \<noteq> None"
  shows "timestamp h (date d) = Some (stamp (enrich h d))"
  using assms
  by (auto simp: timestamp_def stamp_def enrich_def split: option.splits)

lemma by_ts_desc_numeric:
  assumes "three_parts a" "timestamp h (date a) \<noteq> None"
    and "three_parts b" "timestamp h (date b) \<noteq> None"
  shows "by_ts_desc (enrich h a) (enrich h b)
         = Inr (Some (- stamp (enrich h a) - (- stamp (enrich h b))))"
  using assms
  by (auto simp: by_ts_desc_def timestamp_def stamp_def enrich_def number_minus_def
      split: option.splits)

lemma render_numeric:
  assumes "all_numeric h data"
  shows "renderGroupedImages h data
         = Inr (map render_date (sort_key (\<lambda>e. - stamp e) (map (enrich h) (filter three_parts data))))"
proof -
  let ?en = "map (enrich h) (filter three_parts data)"
  have "\<forall>a \<in> set ?en. \<forall>b \<in> set ?en.
          by_ts_desc a b = Inr (Some ((\<lambda>e. - stamp e) a - (\<lambda>e. - stamp e) b))"
    using assms by_ts_desc_numeric unfolding all_numeric_def by auto
  then have "Array_sort by_ts_desc ?en = Inr (sort_key (\<lambda>e. - stamp e) ?en)"
    by (rule Array_sort_sort_key)
  then show ?thesis
    unfolding renderGroupedImages_def Let_def enriched_eq by simp
qed

lemma newer_or_same_enrich:
  assumes "three_parts a" "timestamp h (date a) \<noteq> None"
    and "three_parts b" "timestamp h (date b) \<noteq> None"
  shows "newer_or_same h (render_date (enrich h a)) (render_date (enrich h b))
         = (- stamp (enrich h a) \<le> - stamp (enrich h b))"
  using timestamp_enrich[OF assms(1,2)] timestamp_enrich[OF assms(3,4)]
  by (simp add: newer_or_same_def render_date_def enrich_def)

lemma render_sorted:
  assumes "all_numeric h data" "renderGroupedImages h data = Inr out"
  shows "sorted_wrt (newer_or_same h) out"
proof -
  let ?key = "\<lambda>e. - stamp e"
  let ?en = "map (enrich h) (filter three_parts data)"
  have out: "out = map render_date (sort_key ?key ?en)"
    using assms render_numeric by simp
  have "sorted (map ?key (sort_key ?key ?en))" by simp
  then have s: "sorted_wrt (\<lambda>a b. ?key a \<le> ?key b) (sort_key ?key ?en)"
    by (simp add: sorted_map)
  have "sorted_wrt (\<lambda>a b. newer_or_same h (render_date a) (render_date b)) (sort_key ?key ?en)"
  proof (rule sorted_wrt_mono_rel[OF _ s])
    fix a b
    assume "a \<in> set (sort_key ?key ?en)" "b \<in> set (sort_key ?key ?en)" "?key a \<le> ?key b"
    then show "newer_or_same h (render_date a) (render_date b)"
      using assms(1) newer_or_same_enrich unfolding all_numeric_def by auto
  qed
  then show ?thesis
    by (simp add: out sorted_wrt_map)
qed

lemma render_stable:
  assumes "all_numeric h data" "renderGroupedImages h data = Inr out"
  shows "filter (\<lambda>s. timestamp h (heading_date s) = k) out
         = filter (\<lambda>s. timestamp h (heading_date s) = k)
             (map render_group (filter three_parts data))"
proof -
  let ?key = "\<lambda>e. - stamp e"
  let ?en = "map (enrich h) (filter three_parts data)"
  have out: "out = map render_date (sort_key ?key ?en)"
    using assms render_numeric by simp
  have en: "map render_group (filter three_parts data) = map render_date ?en"
    by (simp add: render_date_enrich)
  have ts: "timestamp h (heading_date (render_date e)) = Some (stamp e)" if "e \<in> set ?en" for e
    using that assms(1) timestamp_enrich unfolding all_numeric_def
    by (auto simp: render_date_def enrich_def)
  show ?thesis
  proof (cases k)
    case None
    have e: "filter (\<lambda>s. timestamp h (heading_date s) = None) (map render_date xs) = []"
      if "set xs \<subseteq> set ?en" for xs
      unfolding filter_empty_conv using that ts by fastforce
    have "filter (\<lambda>s. timestamp h (heading_date s) = None) out = []"
      unfolding out by (rule e) simp
    moreover have "filter (\<lambda>s. timestamp h (heading_date s) = None)
                     (map render_group (filter three_parts data)) = []"
      unfolding en by (rule e) simp
    ultimately show ?thesis using None by simp
  next
    case (Some t)
    have c: "filter (\<lambda>e. timestamp h (heading_date (render_date e)) = Some t) xs
          = filter (\<lambda>e. ?key e = - t) xs" if "set xs \<subseteq> set ?en" for xs
      using that ts by (intro filter_cong) auto
    have "filter (\<lambda>e. ?key e = - t) (sort_key ?key ?en) = filter (\<lambda>e. ?key e = - t) ?en"
      by (rule sort_key_stable)
    then have "filter (\<lambda>e. timestamp h (heading_date (render_date e)) = Some t) (sort_key ?key ?en)
          = filter (\<lambda>e. timestamp h (heading_date (render_date e)) = Some t) ?en"
      using c[of "sort_key ?key ?en"] c[of ?en] by simp
    then have "map render_date
                 (filter (\<lambda>e. timestamp h (heading_date (render_date e)) = Some t) (sort_key ?key ?en))
          = map render_date
                 (filter (\<lambda>e. timestamp h (heading_date (render_date e)) = Some t) ?en)"
      by simp
    then show ?thesis
      unfolding out en filter_map comp_def Some .
  qed
qed


lemma valid_2020: "valid_ddmmyyyy ''01'' ''01'' ''2020''"
  by (simp add: valid_ddmmyyyy_def digits_def is_digit_def num_of_digits_def digit_val_def
      DaysInMonth_def)

lemma valid_2021: "valid_ddmmyyyy ''15'' ''06'' ''2021''"
  by (simp add: valid_ddmmyyyy_def digits_def is_digit_def num_of_digits_def digit_val_def
      DaysInMonth_def)

lemma midnight_2020: "local_midnight 2020 1 1 = 1577836800000"
  by (simp add: local_midnight_def MakeDay_def DayFromYear_def days_before_month_def
      InLeapYear_def msPerDay_def)

lemma midnight_2021: "local_midnight 2021 6 15 = 1623715200000"
  by (simp add: local_midnight_def MakeDay_def DayFromYear_def days_before_month_def
      InLeapYear_def msPerDay_def)

lemma parse_2020:
  "parseDDMMYYYY h ''01-01-2020''
   = Some \<lparr>iso = ''2020-01-01'', ts = TimeClip (UTC h 1577836800000), raw = ''01-01-2020''\<rparr>"
  using parse_valid[OF valid_2020, of h] midnight_2020
  by (simp add: zero_pad2_def num_of_digits_def digit_val_def)

lemma parse_2021:
  "parseDDMMYYYY h ''15-06-2021''
   = Some \<lparr>iso = ''2021-06-15'', ts = TimeClip (UTC h 1623715200000), raw = ''15-06-2021''\<rparr>"
  using parse_valid[OF valid_2021, of h] midnight_2021
  by (simp add: zero_pad2_def num_of_digits_def digit_val_def)

lemma render_two_dates:
  assumes "sane_time_zone h"
  shows "renderGroupedImages h
           [\<lparr>date = ''01-01-2020'', subjects = s1\<rparr>, \<lparr>date = ''15-06-2021'', subjects = s2\<rparr>]
         = Inr [render_group \<lparr>date = ''15-06-2021'', subjects = s2\<rparr>,
                render_group \<lparr>date = ''01-01-2020'', subjects = s1\<rparr>]"
proof -
  have a: "\<bar>UTC h 1577836800000 - 1577836800000\<bar> \<le> 86400000"
    and b: "\<bar>UTC h 1623715200000 - 1623715200000\<bar> \<le> 86400000"
    using assms by (simp_all add: sane_time_zone_def msPerDay_def)
  have c: "TimeClip (UTC h 1577836800000) = Some (UTC h 1577836800000)"
    "TimeClip (UTC h 1623715200000) = Some (UTC h 1623715200000)"
    using a b by (simp_all add: TimeClip_def)
  have d: "UTC h 1577836800000 < UTC h 1623715200000"
    using a b by linarith
  show ?thesis
    using d
    by (simp add: renderGroupedImages_def enrich_def parse_2020 parse_2021 c by_ts_desc_def
        number_minus_def not_after_def render_date_def render_group_def render_subject_def)
qed


lemmas date_defs = parseDDMMYYYY_def padStart_def Date_getTime_def is_digit_def
  num_of_digits_def digit_val_def DaysInMonth_def InLeapYear_def MakeDay_def DayFromYear_def
  days_before_month_def msPerDay_def TimeClip_def utc_host_def

lemmas render_defs = renderGroupedImages_def enrich_def by_ts_desc_def number_minus_def
  not_after_def render_date_def render_subject_def

lemma sane_utc_host: "sane_time_zone utc_host"
  by (simp add: sane_time_zone_def utc_host_def msPerDay_def)

lemma all_numeric_scenario: "all_numeric utc_host scenario"
  by (simp add: all_numeric_def scenario_def timestamp_def three_parts_def date_defs)

text \<open>
  C2. The grouped renderer returns, and renders exactly the date groups
  whose date splits at \<^verbatim>\<open>-\<close> into three pieces, each once. When each of those dates
  has a timestamp that is a number, the rendered groups stand in descending order of
  timestamp, groups of equal timestamp in the order of the collection. On a host whose
  local time is within a day of UTC, a collection of the dates \<^verbatim>\<open>01-01-2020\<close> and
  \<^verbatim>\<open>15-06-2021\<close> is rendered with \<^verbatim>\<open>15-06-2021\<close> first.
\<close>

theorem grouped_render_contract:
  "(\<exists>out. renderGroupedImages h data = Inr out
          \<and> mset out = mset (map render_group (filter three_parts data)))
   \<and> (all_numeric h data \<longrightarrow>
        (\<forall>out. renderGroupedImages h data = Inr out \<longrightarrow>
           sorted_wrt (newer_or_same h) out
           \<and> (\<forall>k. filter (\<lambda>s. timestamp h (heading_date s) = k) out
                  = filter (\<lambda>s. timestamp h (heading_date s) = k)
                      (map render_group (filter three_parts data)))))
   \<and> (sane_time_zone h \<longrightarrow>
        renderGroupedImages h
          [\<lparr>date = ''01-01-2020'', subjects = s1\<rparr>, \<lparr>date = ''15-06-2021'', subjects = s2\<rparr>]
        = Inr [render_group \<lparr>date = ''15-06-2021'', subjects = s2\<rparr>,
               render_group \<lparr>date = ''01-01-2020'', subjects = s1\<rparr>])"
  using render_returns render_sorted render_stable render_two_dates by blast

theorem grouped_render_contract_witness:
  "all_numeric utc_host scenario \<and> sane_time_zone utc_host
   \<and> (\<exists>out. renderGroupedImages utc_host scenario = Inr out
          \<and> map heading_date out = [''11-10-2025'', ''10-10-2025'']
          \<and> sorted_wrt (newer_or_same utc_host) out)
   \<and> renderGroupedImages utc_host
          [\<lparr>date = ''01-01-2020'', subjects = []\<rparr>, \<lparr>date = ''15-06-2021'', subjects = []\<rparr>]
        = Inr [\<lparr>heading_date = ''15-06-2021'', subject_sections = []\<rparr>,
               \<lparr>heading_date = ''01-01-2020'', subject_sections = []\<rparr>]"
proof -
  note c = grouped_render_contract [of utc_host scenario "[]" "[]"]
  obtain out where out: "renderGroupedImages utc_host scenario = Inr out"
    using c by blast
  have f1: "map heading_date out = [''11-10-2025'', ''10-10-2025'']"
    using out by (auto simp: render_defs scenario_def date_defs)
  have f2: "sorted_wrt (newer_or_same utc_host) out"
    using c out all_numeric_scenario by blast
  have f3: "renderGroupedImages utc_host
          [\<lparr>date = ''01-01-2020'', subjects = []\<rparr>, \<lparr>date = ''15-06-2021'', subjects = []\<rparr>]
        = Inr [\<lparr>heading_date = ''15-06-2021'', subject_sections = []\<rparr>,
               \<lparr>heading_date = ''01-01-2020'', subject_sections = []\<rparr>]"
    using c sane_utc_host by (simp add: render_group_def)
  show ?thesis
    by (intro conjI exI[of _ out]) (rule all_numeric_scenario sane_utc_host out f1 f2 f3)+
qed

text \<open>
  C2 does not hold for every collection, nor for every date that is no date: a date of
  three pieces such as \<^verbatim>\<open>x-y-z\<close> has the timestamp \<^verbatim>\<open>NaN\<close>; its group is rendered,
  and it compares as equal to every other group, so that here the group of 2020 stays
  before the group of 2021.
\<close>

theorem grouped_render_counterexample:
  "renderGroupedImages utc_host nan_collection
     = Inr [\<lparr>heading_date = ''01-01-2020'', subject_sections = []\<rparr>,
            \<lparr>heading_date = ''x-y-z'', subject_sections = []\<rparr>,
            \<lparr>heading_date = ''15-06-2021'', subject_sections = []\<rparr>]
   \<and> timestamp utc_host ''01-01-2020'' = Some 1577836800000
   \<and> timestamp utc_host ''x-y-z'' = None
   \<and> timestamp utc_host ''15-06-2021'' = Some 1623715200000"
  by (simp add: nan_collection_def timestamp_def render_defs date_defs)

subsection \<open>Statistics\<close>

lemma insert_sorted_length:
  "insert_sorted c x ys = Inr zs \<Longrightarrow> length zs = Suc (length ys)"
  by (induction ys arbitrary: zs) (auto split: sum.splits if_splits)

lemma Array_sort_length: "Array_sort c xs = Inr ys \<Longrightarrow> length ys = length xs"
  by (induction xs arbitrary: ys) (auto split: sum.splits dest: insert_sorted_length)

lemma Array_sort_single: "Array_sort c [x] = Inr [x]"
  by simp

lemma by_ts_asc_raises:
  "parseDDMMYYYY h a = None \<or> parseDDMMYYYY h b = None \<Longrightarrow> by_ts_asc h a b = Inl TypeError"
  by (auto simp: by_ts_asc_def split: option.splits)

lemma error_is_TypeError: "(e :: error) = TypeError"
  by (cases e) simp

lemma sort_dates_raises:
  assumes "2 \<le> length ds" "\<exists>d \<in> set ds. parseDDMMYYYY h d = None"
  shows "Array_sort (by_ts_asc h) ds = Inl TypeError"
  using assms
proof (induction ds)
  case Nil
  then show ?case by simp
next
  case (Cons x xs)
  show ?case
  proof (cases "Array_sort (by_ts_asc h) xs")
    case (Inl e)
    then show ?thesis by (simp add: error_is_TypeError[of e])
  next
    case (Inr ys)
    then have len: "length ys = length xs" by (rule Array_sort_length)
    with Cons.prems obtain y ys' where ys: "ys = y # ys'" by (cases ys) auto
    have "parseDDMMYYYY h x = None \<or> parseDDMMYYYY h y = None"
    proof (cases "parseDDMMYYYY h x = None")
      case True
      then show ?thesis by simp
    next
      case False
      with Cons.prems have bad: "\<exists>d \<in> set xs. parseDDMMYYYY h d = None" by auto
      have "\<not> 2 \<le> length xs" using Cons.IH bad Inr by auto
      with len ys have "xs = [y]"
        using Inr by (cases xs; cases "tl xs") auto
      with bad show ?thesis by simp
    qed
    then have "by_ts_asc h x y = Inl TypeError" by (rule by_ts_asc_raises)
    then show ?thesis using Inr ys by simp
  qed
qed

lemma calculateStats_raises:
  assumes "2 \<le> length (Set_from (map fr_date flat))"
    and "\<exists>r \<in> set flat. parseDDMMYYYY h (fr_date r) = None"
  shows "calculateStats h flat = Inl TypeError"
proof -
  have s: "set (foldl (\<lambda>acc x. if x \<in> set acc then acc else acc @ [x]) acc xs) = set acc \<union> set xs"
    for acc and xs :: "string list"
    by (induction xs arbitrary: acc) auto
  have "set (Set_from (map fr_date flat)) = fr_date ` set flat"
    by (simp add: Set_from_def s)
  with assms(2) have "\<exists>d \<in> set (Set_from (map fr_date flat)). parseDDMMYYYY h d = None"
    by auto
  with assms(1) show ?thesis
    by (simp add: calculateStats_def sort_dates_raises)
qed


text \<open>
  C1. The claim is that a malformed date is left out of the oldest and newest date and the
  statistics are returned. The script does otherwise: the comparator of the sort reads
  \<^verbatim>\<open>.ts\<close> of the \<^verbatim>\<open>null\<close> that the parser returned, which throws. Here the
  collection has the dates \<^verbatim>\<open>2020\<close> and \<^verbatim>\<open>01-01-2020\<close>, one image each.
\<close>

theorem stats_malformed_date_raises:
  "calculateStats h (getFlattenedImages malformed_stats_input) = Inl TypeError"
proof -
  have "parseDDMMYYYY h ''2020'' = None"
    by (simp add: parse_None_iff)
  then show ?thesis
    by (intro calculateStats_raises)
       (simp_all add: getFlattenedImages_def malformed_stats_input_def Set_from_def)
qed

lemma stats_single_malformed_date:
  "calculateStats h (getFlattenedImages
       [\<lparr>date = ''2020'', subjects = [\<lparr>subject = ''Physics'', images = [''a.jpg'']\<rparr>]\<rparr>])
   = Inr \<lparr>totalImages = 1, uniqueSubjects = 1, uniqueDates = 1,
          oldestDate = ''2020'', newestDate = ''2020''\<rparr>"
  by (simp add: calculateStats_def getFlattenedImages_def Set_from_def or_NA_def element_def)

lemma stats_scenario:
  "calculateStats utc_host (getFlattenedImages scenario)
   = Inr \<lparr>totalImages = 3, uniqueSubjects = 2, uniqueDates = 2,
          oldestDate = ''10-10-2025'', newestDate = ''11-10-2025''\<rparr>"
  by (simp add: calculateStats_def getFlattenedImages_def scenario_def Set_from_def or_NA_def
      element_def by_ts_asc_def number_minus_def not_after_def date_defs)

subsection \<open>The filter engine on the store\<close>

lemma those_map_Some:
  "those (map f xs) = Some ys \<longleftrightarrow> list_all2 (\<lambda>x y. f x = Some y) xs ys"
proof (induction xs arbitrary: ys)
  case Nil
  show ?case by auto
next
  case (Cons x xs)
  show ?case
    by (cases ys) (auto simp: Cons.IH split: option.splits)
qed

lemma element_prefix:
  assumes "prefix st st'" "element st a = Some c"
  shows "element st' a = Some c"
  using assms by (auto simp: element_def prefix_def nth_append split: if_splits)

lemma prefix_alloc: "alloc st c = (st', a) \<Longrightarrow> prefix st st'"
  by (auto simp: alloc_def)

lemma element_alloc: "alloc st c = (st', a) \<Longrightarrow> element st' a = Some c"
  by (auto simp: alloc_def element_def)

lemma read_array_prefix:
  "prefix st st' \<Longrightarrow> read_array st a = Some rs \<Longrightarrow> read_array st' a = Some rs"
  by (auto simp: read_array_def dest: element_prefix split: option.splits cell.splits)

lemma read_date_group_prefix:
  "prefix st st' \<Longrightarrow> read_date_group st a = Some v \<Longrightarrow> read_date_group st' a = Some v"
  by (auto simp: read_date_group_def dest: element_prefix split: option.splits cell.splits)

lemma read_subject_group_prefix:
  "prefix st st' \<Longrightarrow> read_subject_group st a = Some v \<Longrightarrow> read_subject_group st' a = Some v"
  by (auto simp: read_subject_group_def dest: element_prefix split: option.splits cell.splits)

lemma read_images_prefix:
  "prefix st st' \<Longrightarrow> read_images st a = Some ps \<Longrightarrow> read_images st' a = Some ps"
  by (auto simp: read_images_def dest: element_prefix split: option.splits cell.splits)

lemma read_subject_prefix:
  assumes "prefix st st'" "read_subject st a = Some s"
  shows "read_subject st' a = Some s"
proof -
  from assms(2) obtain sn iref ps where
    "read_subject_group st a = Some (sn, iref)" "read_images st iref = Some ps"
    "s = \<lparr>subject = sn, images = ps\<rparr>"
    by (auto simp: read_subject_def split: option.splits)
  then show ?thesis
    using read_subject_group_prefix[OF assms(1)] read_images_prefix[OF assms(1)]
    by (simp add: read_subject_def)
qed

lemma all_subjects_prefix:
  assumes "prefix st st'" "list_all2 (\<lambda>r s. read_subject st r = Some s) rs ss"
  shows "list_all2 (\<lambda>r s. read_subject st' r = Some s) rs ss"
  using assms(2) by (rule list_all2_mono) (rule read_subject_prefix[OF assms(1)])

lemma read_subjects_prefix:
  assumes "prefix st st'" "read_subjects st a = Some ss"
  shows "read_subjects st' a = Some ss"
proof -
  from assms(2) obtain rs where
    "read_array st a = Some rs" "list_all2 (\<lambda>r s. read_subject st r = Some s) rs ss"
    by (auto simp: read_subjects_def those_map_Some split: option.splits)
  then show ?thesis
    using read_array_prefix[OF assms(1)] all_subjects_prefix[OF assms(1)]
    by (simp add: read_subjects_def those_map_Some)
qed

lemma read_date_prefix:
  assumes "prefix st st'" "read_date st a = Some d"
  shows "read_date st' a = Some d"
proof -
  from assms(2) obtain dt sref ss where
    "read_date_group st a = Some (dt, sref)" "read_subjects st sref = Some ss"
    "d = \<lparr>date = dt, subjects = ss\<rparr>"
    by (auto simp: read_date_def split: option.splits)
  then show ?thesis
    using read_date_group_prefix[OF assms(1)] read_subjects_prefix[OF assms(1)]
    by (simp add: read_date_def)
qed

lemma all_dates_prefix:
  assumes "prefix st st'" "list_all2 (\<lambda>r d. read_date st r = Some d) rs ds"
  shows "list_all2 (\<lambda>r d. read_date st' r = Some d) rs ds"
  using assms(2) by (rule list_all2_mono) (rule read_date_prefix[OF assms(1)])

lemma read_collection_prefix:
  assumes "prefix st st'" "read_collection st a = Some ds"
  shows "read_collection st' a = Some ds"
proof -
  from assms(2) obtain rs where
    "read_array st a = Some rs" "list_all2 (\<lambda>r d. read_date st r = Some d) rs ds"
    by (auto simp: read_collection_def those_map_Some split: option.splits)
  then show ?thesis
    using read_array_prefix[OF assms(1)] all_dates_prefix[OF assms(1)]
    by (simp add: read_collection_def those_map_Some)
qed

lemma read_collection_alloc:
  assumes "alloc st (ObjArray rs) = (st', a)"
    and "list_all2 (\<lambda>r d. read_date st r = Some d) rs ds"
  shows "read_collection st' a = Some ds"
  using element_alloc[OF assms(1)] all_dates_prefix[OF prefix_alloc[OF assms(1)] assms(2)]
  by (simp add: read_collection_def read_array_def those_map_Some)

lemma filter_by_date_refines:
  assumes "list_all2 (\<lambda>r d. read_date st r = Some d) rs ds"
  shows "\<exists>ks. filter_by_date st df rs = Some ks
             \<and> list_all2 (\<lambda>r d. read_date st r = Some d) ks (filter (date_matches df) ds)"
  using assms
proof (induction rs ds rule: list_all2_induct)
  case Nil
  show ?case by simp
next
  case (Cons r rs d ds)
  then obtain ks where ks: "filter_by_date st df rs = Some ks"
    "list_all2 (\<lambda>r d. read_date st r = Some d) ks (filter (date_matches df) ds)" by blast
  from Cons(1) obtain sref where "read_date_group st r = Some (date d, sref)"
    by (auto simp: read_date_def split: option.splits)
  with ks Cons(1) show ?case
    by (simp add: date_matches_def[symmetric])
qed

lemma filter_by_subject_refines:
  assumes "list_all2 (\<lambda>r s. read_subject st r = Some s) rs ss"
  shows "\<exists>ks. filter_by_subject st sb rs = Some ks
             \<and> list_all2 (\<lambda>r s. read_subject st r = Some s) ks
                  (filter (\<lambda>s. subject s = sb) ss)"
  using assms
proof (induction rs ss rule: list_all2_induct)
  case Nil
  show ?case by simp
next
  case (Cons r rs s ss)
  then obtain ks where ks: "filter_by_subject st sb rs = Some ks"
    "list_all2 (\<lambda>r s. read_subject st r = Some s) ks (filter (\<lambda>s. subject s = sb) ss)"
    by blast
  from Cons(1) obtain iref where "read_subject_group st r = Some (subject s, iref)"
    by (auto simp: read_subject_def split: option.splits)
  with ks Cons(1) show ?case
    by simp
qed

lemma filter_nonempty_refines:
  assumes "list_all2 (\<lambda>r d. read_date st r = Some d) rs ds"
  shows "\<exists>ks. filter_nonempty st rs = Some ks
             \<and> list_all2 (\<lambda>r d. read_date st r = Some d) ks
                  (filter (\<lambda>d. 0 < length (subjects d)) ds)"
  using assms
proof (induction rs ds rule: list_all2_induct)
  case Nil
  show ?case by simp
next
  case (Cons r rs d ds)
  then obtain ks where ks: "filter_nonempty st rs = Some ks"
    "list_all2 (\<lambda>r d. read_date st r = Some d) ks (filter (\<lambda>d. 0 < length (subjects d)) ds)"
    by blast
  from Cons(1) obtain sref srefs where rd: "read_date_group st r = Some (date d, sref)"
    "read_array st sref = Some srefs"
    "list_all2 (\<lambda>r s. read_subject st r = Some s) srefs (subjects d)"
    by (auto simp: read_date_def read_subjects_def those_map_Some split: option.splits)
  then have "length srefs = length (subjects d)"
    by (auto dest: list_all2_lengthD)
  with ks Cons(1) rd show ?case
    by simp
qed


lemma map_filtered_subjects_prefix:
  "map_filtered_subjects st sb rs = Some (st', rs') \<Longrightarrow> prefix st st'"
proof (induction rs arbitrary: st st' rs')
  case Nil
  then show ?case by simp
next
  case (Cons r rs)
  from Cons.prems obtain d sref srefs kept st3 rs0 where
    "map_filtered_subjects ((st @ [ObjArray kept]) @ [DateGroupObj d (length st)]) sb rs
       = Some (st3, rs0)" "st' = st3"
    by (auto simp: alloc_def split: option.splits)
  then have "prefix ((st @ [ObjArray kept]) @ [DateGroupObj d (length st)]) st'"
    using Cons.IH by blast
  then show ?case
    by (meson append_prefixD)
qed

lemma read_date_copy:
  assumes "list_all2 (\<lambda>r s. read_subject st r = Some s) srefs (subjects d)"
    and "filter_by_subject st sb srefs = Some kept"
    and "alloc st (ObjArray kept) = (st1, fs)"
    and "alloc st1 (DateGroupObj (date d) fs) = (st2, r')"
  shows "read_date st2 r' = Some (keep_subject sb d)"
proof -
  have p: "prefix st st1" "prefix st1 st2" "prefix st st2"
    using assms(3,4) by (auto simp: alloc_def)
  from assms(1) have "list_all2 (\<lambda>r s. read_subject st r = Some s) kept
               (filter (\<lambda>s. subject s = sb) (subjects d))"
    using filter_by_subject_refines[of st srefs "subjects d" sb] assms(2) by auto
  then have k: "list_all2 (\<lambda>r s. read_subject st2 r = Some s) kept
               (filter (\<lambda>s. subject s = sb) (subjects d))"
    by (rule all_subjects_prefix[OF p(3)])
  have "read_array st1 fs = Some kept"
    using element_alloc[OF assms(3)] by (simp add: read_array_def)
  then have "read_array st2 fs = Some kept"
    by (rule read_array_prefix[OF p(2)])
  with k have "read_subjects st2 fs = Some (filter (\<lambda>s. subject s = sb) (subjects d))"
    by (simp add: read_subjects_def those_map_Some)
  moreover have "read_date_group st2 r' = Some (date d, fs)"
    using element_alloc[OF assms(4)] by (simp add: read_date_group_def)
  ultimately show ?thesis
    by (simp add: read_date_def keep_subject_def)
qed

lemma map_filtered_subjects_refines:
  assumes "list_all2 (\<lambda>r d. read_date st r = Some d) rs ds"
  shows "\<exists>st' rs'. map_filtered_subjects st sb rs = Some (st', rs')
           \<and> list_all2 (\<lambda>r d. read_date st' r = Some d) rs' (map (keep_subject sb) ds)"
  using assms
proof (induction rs arbitrary: st ds)
  case Nil
  then show ?case by simp
next
  case (Cons r rs)
  from Cons.prems obtain d ds0 where ds: "ds = d # ds0" "read_date st r = Some d"
    "list_all2 (\<lambda>r d. read_date st r = Some d) rs ds0"
    by (auto simp: list_all2_Cons1)
  from ds(2) obtain sref srefs where rd: "read_date_group st r = Some (date d, sref)"
    "read_array st sref = Some srefs"
    "list_all2 (\<lambda>r s. read_subject st r = Some s) srefs (subjects d)"
    by (auto simp: read_date_def read_subjects_def those_map_Some split: option.splits)
  from filter_by_subject_refines[OF rd(3)] obtain kept where
    kept: "filter_by_subject st sb srefs = Some kept" by blast
  obtain st1 fs where a1: "alloc st (ObjArray kept) = (st1, fs)" by (cases "alloc st (ObjArray kept)")
  obtain st2 r' where a2: "alloc st1 (DateGroupObj (date d) fs) = (st2, r')"
    by (cases "alloc st1 (DateGroupObj (date d) fs)")
  have p: "prefix st st2"
    using a1 a2 by (auto simp: alloc_def)
  have "list_all2 (\<lambda>r d. read_date st2 r = Some d) rs ds0"
    using ds(3) by (rule all_dates_prefix[OF p])
  from Cons.IH[OF this] obtain st3 rs0 where
    ih: "map_filtered_subjects st2 sb rs = Some (st3, rs0)"
    "list_all2 (\<lambda>r d. read_date st3 r = Some d) rs0 (map (keep_subject sb) ds0)" by blast
  have "read_date st2 r' = Some (keep_subject sb d)"
    using rd(3) kept a1 a2 by (rule read_date_copy)
  then have "read_date st3 r' = Some (keep_subject sb d)"
    using map_filtered_subjects_prefix[OF ih(1)] read_date_prefix by blast
  with ih rd kept a1 a2 ds(1) show ?case
    by simp
qed


lemma date_stage_store_prefix:
  "date_stage_store u st fd = Some (st', fd') \<Longrightarrow> prefix st st'"
  by (auto simp: date_stage_store_def alloc_def split: option.splits if_splits)

lemma subject_stage_store_prefix:
  assumes "subject_stage_store u st fd = Some (st', fd')"
  shows "prefix st st'"
proof (cases "getSelectedSubject u \<noteq> None \<and> filterState_subject u")
  case False
  with assms show ?thesis
    by (auto simp: subject_stage_store_def split: option.splits if_splits)
next
  case True
  with assms obtain sb rs st1 rs' ks where
    "map_filtered_subjects st sb rs = Some (st1, rs')"
    "st' = (st1 @ [ObjArray rs']) @ [ObjArray ks]"
    by (auto simp: subject_stage_store_def alloc_def split: option.splits if_splits)
  then show ?thesis
    using map_filtered_subjects_prefix by (meson prefix_order.trans prefixI)
qed

lemma applyCombinedFilter_store_prefix:
  assumes "applyCombinedFilter_store u st g = Some (st', r)"
  shows "prefix st st'"
proof -
  from assms obtain rs st1 fd1 where
    "date_stage_store u (st @ [ObjArray rs]) (length st) = Some (st1, fd1)"
    "subject_stage_store u st1 fd1 = Some (st', r)"
    by (auto simp: applyCombinedFilter_store_def alloc_def split: option.splits)
  then have "prefix (st @ [ObjArray rs]) st1" "prefix st1 st'"
    by (auto dest: date_stage_store_prefix subject_stage_store_prefix)
  then show ?thesis
    by (meson append_prefixD prefix_order.trans)
qed

lemma read_collection_Some:
  "read_collection st a = Some ds \<longleftrightarrow>
     (\<exists>rs. read_array st a = Some rs \<and> list_all2 (\<lambda>r d. read_date st r = Some d) rs ds)"
  by (auto simp: read_collection_def those_map_Some split: option.splits)

lemma date_stage_store_refines:
  assumes "read_collection st fd = Some ds"
  shows "\<exists>st' fd'. date_stage_store u st fd = Some (st', fd')
           \<and> read_collection st' fd'
               = Some (case getSelectedDateFilters u of
                         Some df \<Rightarrow> if filterState_date u then date_filtering df ds else ds
                       | None \<Rightarrow> ds)"
proof (cases "getSelectedDateFilters u")
  case None
  with assms show ?thesis by (simp add: date_stage_store_def)
next
  case (Some df)
  show ?thesis
  proof (cases "filterState_date u")
    case False
    with Some assms show ?thesis by (simp add: date_stage_store_def)
  next
    case True
    from assms obtain rs where rs: "read_array st fd = Some rs"
      "list_all2 (\<lambda>r d. read_date st r = Some d) rs ds"
      by (auto simp: read_collection_Some)
    from filter_by_date_refines[OF rs(2), of df] obtain ks where
      ks: "filter_by_date st df rs = Some ks"
      "list_all2 (\<lambda>r d. read_date st r = Some d) ks (filter (date_matches df) ds)" by blast
    obtain st' fd' where a: "alloc st (ObjArray ks) = (st', fd')"
      by (cases "alloc st (ObjArray ks)")
    have "read_collection st' fd' = Some (filter (date_matches df) ds)"
      using a ks(2) by (rule read_collection_alloc)
    with Some True rs ks a show ?thesis
      by (simp add: date_stage_store_def date_filtering_def)
  qed
qed

lemma subject_stage_store_refines:
  assumes "read_collection st fd = Some ds"
  shows "\<exists>st' fd'. subject_stage_store u st fd = Some (st', fd')
           \<and> read_collection st' fd'
               = Some (case getSelectedSubject u of
                         Some sb \<Rightarrow> if filterState_subject u then subject_filtering sb ds else ds
                       | None \<Rightarrow> ds)"
proof (cases "getSelectedSubject u")
  case None
  with assms show ?thesis by (simp add: subject_stage_store_def)
next
  case (Some sb)
  show ?thesis
  proof (cases "filterState_subject u")
    case False
    with Some assms show ?thesis by (simp add: subject_stage_store_def)
  next
    case True
    from assms obtain rs where rs: "read_array st fd = Some rs"
      "list_all2 (\<lambda>r d. read_date st r = Some d) rs ds"
      by (auto simp: read_collection_Some)
    from map_filtered_subjects_refines[OF rs(2), of sb] obtain st1 rs' where
      m: "map_filtered_subjects st sb rs = Some (st1, rs')"
      "list_all2 (\<lambda>r d. read_date st1 r = Some d) rs' (map (keep_subject sb) ds)" by blast
    obtain st2 mapped where a2: "alloc st1 (ObjArray rs') = (st2, mapped)"
      by (cases "alloc st1 (ObjArray rs')")
    have m2: "list_all2 (\<lambda>r d. read_date st2 r = Some d) rs' (map (keep_subject sb) ds)"
      using m(2) by (rule all_dates_prefix[OF prefix_alloc[OF a2]])
    from filter_nonempty_refines[OF m2] obtain ks where
      ks: "filter_nonempty st2 rs' = Some ks"
      "list_all2 (\<lambda>r d. read_date st2 r = Some d) ks
         (filter (\<lambda>d. 0 < length (subjects d)) (map (keep_subject sb) ds))" by blast
    obtain st' fd' where a: "alloc st2 (ObjArray ks) = (st', fd')"
      by (cases "alloc st2 (ObjArray ks)")
    have "read_collection st' fd'
          = Some (filter (\<lambda>d. 0 < length (subjects d)) (map (keep_subject sb) ds))"
      using a ks(2) by (rule read_collection_alloc)
    then have "read_collection st' fd' = Some (subject_filtering sb ds)"
      by (simp add: subject_filtering_def keep_subject_def[abs_def])
    with Some True rs m a2 ks a show ?thesis
      by (simp add: subject_stage_store_def)
  qed
qed

lemma applyCombinedFilter_store_refines:
  assumes "read_collection st g = Some data"
  shows "\<exists>st' r. applyCombinedFilter_store u st g = Some (st', r)
           \<and> read_collection st' r = Some (filteredData u data)"
proof -
  from assms obtain rs where rs: "read_array st g = Some rs"
    "list_all2 (\<lambda>r d. read_date st r = Some d) rs data"
    by (auto simp: read_collection_Some)
  obtain st0 fd0 where a: "alloc st (ObjArray rs) = (st0, fd0)"
    by (cases "alloc st (ObjArray rs)")
  have "read_collection st0 fd0 = Some data"
    using a rs(2) by (rule read_collection_alloc)
  from date_stage_store_refines[OF this, of u] obtain st1 fd1 where
    d: "date_stage_store u st0 fd0 = Some (st1, fd1)"
    "read_collection st1 fd1
       = Some (case getSelectedDateFilters u of
                 Some df \<Rightarrow> if filterState_date u then date_filtering df data else data
               | None \<Rightarrow> data)" by blast
  from subject_stage_store_refines[OF d(2), of u] obtain st' r where
    "subject_stage_store u st1 fd1 = Some (st', r)"
    "read_collection st' r = Some (filteredData u data)"
    unfolding filteredData_def Let_def by blast
  with rs a d show ?thesis
    by (simp add: applyCombinedFilter_store_def)
qed

lemma filteredData_disabled:
  "\<not> filterState_subject u \<Longrightarrow> \<not> filterState_date u \<Longrightarrow> filteredData u data = data"
  by (simp add: filteredData_def getSelectedSubject_def getSelectedDateFilters_def)

lemma read_scenario_store: "read_collection scenario_store 8 = Some scenario"
  by (simp add: read_collection_def read_array_def read_date_def read_date_group_def
      read_subjects_def read_subject_def read_subject_group_def read_images_def element_def
      scenario_store_def scenario_def)

text \<open>
  C9. The filter engine writes to no cell that exists when it starts: the store after it is
  the store before it with new cells at the end. So the collection behind
  \<^verbatim>\<open>galleryData\<close> reads after filtering as it read before, while the output reads as
  the filtered collection; with both filters switched off the output reads as the input.
\<close>

theorem filter_leaves_input_unchanged:
  "(\<forall>st' r. applyCombinedFilter_store u st g = Some (st', r) \<longrightarrow> prefix st st')
   \<and> (read_collection st g = Some data \<longrightarrow>
        (\<exists>st' r. applyCombinedFilter_store u st g = Some (st', r)
           \<and> read_collection st' g = Some data
           \<and> read_collection st' r = Some (filteredData u data)
           \<and> (\<not> filterState_subject u \<and> \<not> filterState_date u \<longrightarrow>
                read_collection st' r = Some data)))"
proof (intro conjI allI impI)
  fix st' r
  assume "applyCombinedFilter_store u st g = Some (st', r)"
  then show "prefix st st'" by (rule applyCombinedFilter_store_prefix)
next
  assume rc: "read_collection st g = Some data"
  from applyCombinedFilter_store_refines[OF this, of u] obtain st' r where
    a: "applyCombinedFilter_store u st g = Some (st', r)"
    "read_collection st' r = Some (filteredData u data)" by blast
  have "read_collection st' g = Some data"
    using applyCombinedFilter_store_prefix[OF a(1)] rc by (rule read_collection_prefix)
  with a show "\<exists>st' r. applyCombinedFilter_store u st g = Some (st', r)
           \<and> read_collection st' g = Some data
           \<and> read_collection st' r = Some (filteredData u data)
           \<and> (\<not> filterState_subject u \<and> \<not> filterState_date u \<longrightarrow>
                read_collection st' r = Some data)"
    by (auto simp: filteredData_disabled)
qed

theorem filter_leaves_input_unchanged_witness:
  "read_collection scenario_store 8 = Some scenario
   \<and> (\<exists>st' r. applyCombinedFilter_store physics_day_11 scenario_store 8 = Some (st', r)
         \<and> prefix scenario_store st'
         \<and> read_collection st' 8 = Some scenario
         \<and> read_collection st' r
             = Some [\<lparr>date = ''11-10-2025'',
                      subjects = [\<lparr>subject = ''Physics'', images = [''b.jpg'', ''c.jpg'']\<rparr>]\<rparr>])
   \<and> (\<exists>st' r. applyCombinedFilter_store filters_off scenario_store 8 = Some (st', r)
         \<and> prefix scenario_store st'
         \<and> read_collection st' 8 = Some scenario
         \<and> read_collection st' r = Some scenario)"
proof -
  have f: "filteredData physics_day_11 scenario
   = [\<lparr>date = ''11-10-2025'',
           subjects = [\<lparr>subject = ''Physics'', images = [''b.jpg'', ''c.jpg'']\<rparr>]\<rparr>]"
    by (simp add: filter_defs physics_day_11_def scenario_def)
  have off: "\<not> filterState_subject filters_off \<and> \<not> filterState_date filters_off"
    by (simp add: filters_off_def)
  have a: "\<exists>st' r. applyCombinedFilter_store physics_day_11 scenario_store 8 = Some (st', r)
         \<and> prefix scenario_store st'
         \<and> read_collection st' 8 = Some scenario
         \<and> read_collection st' r
             = Some [\<lparr>date = ''11-10-2025'',
                      subjects = [\<lparr>subject = ''Physics'', images = [''b.jpg'', ''c.jpg'']\<rparr>]\<rparr>]"
    using filter_leaves_input_unchanged [of physics_day_11 scenario_store 8 scenario]
      read_scenario_store f by metis
  have b: "\<exists>st' r. applyCombinedFilter_store filters_off scenario_store 8 = Some (st', r)
         \<and> prefix scenario_store st'
         \<and> read_collection st' 8 = Some scenario
         \<and> read_collection st' r = Some scenario"
    using filter_leaves_input_unchanged [of filters_off scenario_store 8 scenario]
      read_scenario_store off by metis
  show ?thesis
    using read_scenario_store a b by (intro conjI)
qed

end
